theory Spec2Isabelle
  imports Main "HOL-Library.Word"
begin

section \<open>Bytes, strings and the Buffer codecs\<close>

text \<open>
  A Node \<open>Buffer\<close> is a list of bytes. A JavaScript string is a list of UTF-16 code
  units, so a string may hold an unpaired surrogate. The codecs below are the three
  conversions of \<open>Buffer\<close> the repository calls: \<open>toString("base64")\<close>,
  \<open>Buffer.from(s, "base64")\<close>, \<open>Buffer.from(s, "utf-8")\<close> and \<open>toString("utf-8")\<close>.
  They compute on natural numbers; the wrappers convert from and to machine words.
\<close>

type_synonym byte = "8 word"
type_synonym buffer = "byte list"
type_synonym jsstring = "16 word list"

definition js :: "string \<Rightarrow> jsstring" where
  "js s = map (\<lambda>c. of_nat (of_char c)) s"

subsection \<open>Base64\<close>

text \<open>
  The digits of the standard alphabet: \<open>A\<close>--\<open>Z\<close> (65--90), \<open>a\<close>--\<open>z\<close> (97--122),
  \<open>0\<close>--\<open>9\<close> (48--57), \<open>+\<close> (43) and \<open>/\<close> (47).
\<close>

definition b64_digit :: "nat \<Rightarrow> nat" where
  "b64_digit n =
     (if n < 26 then 65 + n
      else if n < 52 then 97 + (n - 26)
      else if n < 62 then 48 + (n - 52)
      else if n = 62 then 43
      else 47)"

text \<open>\<open>toString("base64")\<close>: three bytes give four digits; the tail is padded with \<open>=\<close> (61).\<close>

fun base64_chars :: "nat list \<Rightarrow> nat list" where
  "base64_chars (a # b # c # r) =
     [b64_digit (a div 4), b64_digit ((a mod 4) * 16 + b div 16),
      b64_digit ((b mod 16) * 4 + c div 64), b64_digit (c mod 64)] @ base64_chars r"
| "base64_chars [a, b] =
     [b64_digit (a div 4), b64_digit ((a mod 4) * 16 + b div 16),
      b64_digit ((b mod 16) * 4), 61]"
| "base64_chars [a] = [b64_digit (a div 4), b64_digit ((a mod 4) * 16), 61, 61]"
| "base64_chars [] = []"

definition base64_encode :: "buffer \<Rightarrow> jsstring" where
  "base64_encode b = map of_nat (base64_chars (map unat b))"

text \<open>
  \<open>Buffer.from(s, "base64")\<close> is lenient: it reads the standard and the URL-safe
  alphabet, skips every other character, stops at the first \<open>=\<close>, and drops the bits
  of an incomplete last group.
\<close>

definition unbase64 :: "nat \<Rightarrow> nat option" where
  "unbase64 c =
     (if 65 \<le> c \<and> c \<le> 90 then Some (c - 65)
      else if 97 \<le> c \<and> c \<le> 122 then Some (c - 71)
      else if 48 \<le> c \<and> c \<le> 57 then Some (c + 4)
      else if c = 43 \<or> c = 45 then Some 62
      else if c = 47 \<or> c = 95 then Some 63
      else None)"

fun sextets_bytes :: "nat list \<Rightarrow> nat list" where
  "sextets_bytes (p # q # r # s # t) =
     [p * 4 + q div 16, (q mod 16) * 16 + r div 4, (r mod 4) * 64 + s] @ sextets_bytes t"
| "sextets_bytes [p, q, r] = [p * 4 + q div 16, (q mod 16) * 16 + r div 4]"
| "sextets_bytes [p, q] = [p * 4 + q div 16]"
| "sextets_bytes [p] = []"
| "sextets_bytes [] = []"

definition base64_sextets :: "nat list \<Rightarrow> nat list" where
  "base64_sextets cs = List.map_filter unbase64 (takeWhile (\<lambda>c. c \<noteq> 61) cs)"

definition base64_decode :: "jsstring \<Rightarrow> buffer" where
  "base64_decode s = map of_nat (sextets_bytes (base64_sextets (map unat s)))"

subsection \<open>UTF-8\<close>

text \<open>
  \<open>Buffer.from(s, "utf-8")\<close>: a surrogate pair becomes one four-byte sequence, an
  unpaired surrogate becomes the replacement character U+FFFD (\<open>EF BF BD\<close>).
\<close>

definition is_high_surrogate :: "nat \<Rightarrow> bool" where
  "is_high_surrogate u = (0xD800 \<le> u \<and> u < 0xDC00)"

definition is_low_surrogate :: "nat \<Rightarrow> bool" where
  "is_low_surrogate u = (0xDC00 \<le> u \<and> u < 0xE000)"

definition utf8_1 :: "nat \<Rightarrow> nat list" where
  "utf8_1 u = [u]"

definition utf8_2 :: "nat \<Rightarrow> nat list" where
  "utf8_2 u = [0xC0 + u div 64, 0x80 + u mod 64]"

definition utf8_3 :: "nat \<Rightarrow> nat list" where
  "utf8_3 u = [0xE0 + u div 4096, 0x80 + (u div 64) mod 64, 0x80 + u mod 64]"

definition utf8_4 :: "nat \<Rightarrow> nat list" where
  "utf8_4 cp = [0xF0 + cp div 262144, 0x80 + (cp div 4096) mod 64,
                0x80 + (cp div 64) mod 64, 0x80 + cp mod 64]"

definition surrogate_pair_value :: "nat \<Rightarrow> nat \<Rightarrow> nat" where
  "surrogate_pair_value hi lo = 0x10000 + (hi - 0xD800) * 0x400 + (lo - 0xDC00)"

fun utf8_units :: "nat list \<Rightarrow> nat list" where
  "utf8_units [] = []"
| "utf8_units [u] =
     (if u < 0x80 then utf8_1 u
      else if u < 0x800 then utf8_2 u
      else if is_high_surrogate u \<or> is_low_surrogate u then utf8_3 0xFFFD
      else utf8_3 u)"
| "utf8_units (u # v # vs) =
     (if u < 0x80 then utf8_1 u @ utf8_units (v # vs)
      else if u < 0x800 then utf8_2 u @ utf8_units (v # vs)
      else if is_high_surrogate u \<and> is_low_surrogate v
        then utf8_4 (surrogate_pair_value u v) @ utf8_units vs
      else if is_high_surrogate u \<or> is_low_surrogate u
        then utf8_3 0xFFFD @ utf8_units (v # vs)
      else utf8_3 u @ utf8_units (v # vs))"

definition utf8_encode :: "jsstring \<Rightarrow> buffer" where
  "utf8_encode s = map of_nat (utf8_units (map unat s))"

text \<open>
  \<open>toString("utf-8")\<close>: never fails; each maximal ill-formed prefix is replaced by
  U+FFFD, a code point above U+FFFF is returned as a surrogate pair.
\<close>

definition is_cont :: "nat \<Rightarrow> bool" where
  "is_cont b = (0x80 \<le> b \<and> b \<le> 0xBF)"

definition second_ok :: "nat \<Rightarrow> nat \<Rightarrow> bool" where
  "second_ok b c =
     ((if b = 0xE0 then 0xA0 else if b = 0xF0 then 0x90 else 0x80) \<le> c \<and>
      c \<le> (if b = 0xED then 0x9F else if b = 0xF4 then 0x8F else 0xBF))"

definition code_point_units :: "nat \<Rightarrow> nat list" where
  "code_point_units cp =
     (if cp < 0x10000 then [cp]
      else [0xD800 + (cp - 0x10000) div 0x400, 0xDC00 + (cp - 0x10000) mod 0x400])"

fun utf8_dec :: "nat list \<Rightarrow> nat list" where
  "utf8_dec [] = []"
| "utf8_dec (b # bs) =
     (if b < 0x80 then b # utf8_dec bs
      else if 0xC2 \<le> b \<and> b \<le> 0xDF then
        (case bs of
           [] \<Rightarrow> [0xFFFD]
         | c # cs \<Rightarrow>
             if is_cont c then ((b - 0xC0) * 64 + (c - 0x80)) # utf8_dec cs
             else 0xFFFD # utf8_dec bs)
      else if 0xE0 \<le> b \<and> b \<le> 0xEF then
        (case bs of
           [] \<Rightarrow> [0xFFFD]
         | c # cs \<Rightarrow>
             if \<not> second_ok b c then 0xFFFD # utf8_dec bs
             else (case cs of
                     [] \<Rightarrow> [0xFFFD]
                   | d # ds \<Rightarrow>
                       if is_cont d
                       then ((b - 0xE0) * 4096 + (c - 0x80) * 64 + (d - 0x80)) # utf8_dec ds
                       else 0xFFFD # utf8_dec cs))
      else if 0xF0 \<le> b \<and> b \<le> 0xF4 then
        (case bs of
           [] \<Rightarrow> [0xFFFD]
         | c # cs \<Rightarrow>
             if \<not> second_ok b c then 0xFFFD # utf8_dec bs
             else (case cs of
                     [] \<Rightarrow> [0xFFFD]
                   | d # ds \<Rightarrow>
                       if \<not> is_cont d then 0xFFFD # utf8_dec cs
                       else (case ds of
                               [] \<Rightarrow> [0xFFFD]
                             | e # es \<Rightarrow>
                                 if is_cont e
                                 then code_point_units
                                        ((b - 0xF0) * 262144 + (c - 0x80) * 4096 +
                                         (d - 0x80) * 64 + (e - 0x80)) @ utf8_dec es
                                 else 0xFFFD # utf8_dec ds)))
      else 0xFFFD # utf8_dec bs)"

definition utf8_decode :: "buffer \<Rightarrow> jsstring" where
  "utf8_decode b = map of_nat (utf8_dec (map unat b))"

text \<open>A string is well formed when every surrogate is half of a pair.\<close>

fun well_formed_units :: "nat list \<Rightarrow> bool" where
  "well_formed_units [] = True"
| "well_formed_units [u] = (\<not> is_high_surrogate u \<and> \<not> is_low_surrogate u)"
| "well_formed_units (u # v # vs) =
     (if is_high_surrogate u then is_low_surrogate v \<and> well_formed_units vs
      else \<not> is_low_surrogate u \<and> well_formed_units (v # vs))"

definition well_formed :: "jsstring \<Rightarrow> bool" where
  "well_formed s = well_formed_units (map unat s)"

section \<open>Errors\<close>

text \<open>
  Every \<open>throw new Error(...)\<close> of the repository is one constructor; the comment gives
  the message. \<open>DecryptionFailed\<close> carries the message of the wrapped error.
\<close>

datatype error =
    PlaintextEmpty          \<comment> \<open>Plaintext must be a non-empty string\<close>
  | CiphertextEmpty         \<comment> \<open>Ciphertext must be a non-empty string\<close>
  | MasterKeyLength nat     \<comment> \<open>Master key must be exactly 32 bytes (256 bits). Received n bytes.\<close>
  | DecryptionFailed string \<comment> \<open>Decryption failed: message\<close>
  | MasterKeyRequired       \<comment> \<open>masterKey is required in BYOK configuration\<close>
  | ConfigKeyLength nat     \<comment> \<open>Master key must be exactly 32 bytes ... Generate a key using ...\<close>
  | NotConfigured           \<comment> \<open>BYOK is not properly configured\<close>
  | UserIdRequired          \<comment> \<open>userId is required\<close>
  | ProviderRequired        \<comment> \<open>provider is required\<close>
  | ApiKeyRequired          \<comment> \<open>apiKey is required\<close>
  | UnsupportedProvider     \<comment> \<open>Only provider 'gemini' is supported in this preview\<close>
  | InvalidApiKey           \<comment> \<open>Gemini API key appears invalid\<close>
  | NoKeyFound              \<comment> \<open>No key found for this user/provider\<close>
  | PromptRequired          \<comment> \<open>prompt is required\<close>
  | Upstream string         \<comment> \<open>an error of the provider's service, passed on as it is\<close>

definition is_validation_error :: "error \<Rightarrow> bool" where
  "is_validation_error e =
     (e = UserIdRequired \<or> e = ProviderRequired \<or> e = ApiKeyRequired \<or>
      e = UnsupportedProvider \<or> e = InvalidApiKey)"

definition is_decryption_failure :: "error \<Rightarrow> bool" where
  "is_decryption_failure e = (case e of DecryptionFailed m \<Rightarrow> True | _ \<Rightarrow> False)"

section \<open>The primitives of Node's \<open>crypto\<close> module\<close>

text \<open>
  PBKDF2 and AES-256-GCM are library code, not code of the repository: they are
  parameters of the model. \<open>gcm_seal key iv plaintext\<close> stands for \<open>createCipheriv\<close>,
  \<open>update\<close>, \<open>final\<close> and \<open>getAuthTag\<close> and returns ciphertext and tag;
  \<open>gcm_open key iv tag ciphertext\<close> stands for \<open>createDecipheriv\<close>, \<open>setAuthTag\<close>,
  \<open>update\<close> and \<open>final\<close>, and is \<open>None\<close> where \<open>final\<close> throws.
\<close>

record crypto =
  pbkdf2Sync :: "buffer \<Rightarrow> buffer \<Rightarrow> nat \<Rightarrow> nat \<Rightarrow> buffer"
  gcm_seal :: "buffer \<Rightarrow> buffer \<Rightarrow> buffer \<Rightarrow> buffer \<times> buffer"
  gcm_open :: "buffer \<Rightarrow> buffer \<Rightarrow> buffer \<Rightarrow> buffer \<Rightarrow> buffer option"

text \<open>
  What the model assumes of the primitives, for the sizes the repository uses (a 32-byte
  key, a 16-byte IV, a 16-byte tag): PBKDF2 returns as many bytes as asked for; the
  ciphertext is as long as the plaintext and the tag has 16 bytes; opening succeeds on
  exactly the pairs that sealing produces.
\<close>

definition pbkdf2_length :: "crypto \<Rightarrow> bool" where
  "pbkdf2_length cr = (\<forall>pw salt n len. length (pbkdf2Sync cr pw salt n len) = len)"

definition gcm_lengths :: "crypto \<Rightarrow> bool" where
  "gcm_lengths cr =
     (\<forall>key iv pt. length key = 32 \<longrightarrow> length iv = 16 \<longrightarrow>
        length (fst (gcm_seal cr key iv pt)) = length pt \<and>
        length (snd (gcm_seal cr key iv pt)) = 16)"

definition gcm_inverse :: "crypto \<Rightarrow> bool" where
  "gcm_inverse cr =
     (\<forall>key iv tag ct pt. length key = 32 \<longrightarrow> length iv = 16 \<longrightarrow> length tag = 16 \<longrightarrow>
        (gcm_open cr key iv tag ct = Some pt) = (gcm_seal cr key iv pt = (ct, tag)))"


definition crypto_contract :: "crypto \<Rightarrow> bool" where
  "crypto_contract cr = (pbkdf2_length cr \<and> gcm_lengths cr \<and> gcm_inverse cr)"

text \<open>
  \<open>crypto.randomBytes\<close> reads an unbounded tape of random bytes: a call returns the
  next \<open>n\<close> bytes and leaves the rest.
\<close>

type_synonym entropy = "nat \<Rightarrow> byte"

definition randomBytes :: "nat \<Rightarrow> entropy \<Rightarrow> buffer \<times> entropy" where
  "randomBytes n e = (map e [0..<n], \<lambda>i. e (n + i))"

section \<open>Encryption\<close>

text \<open>
  The class \<open>Encryption\<close>. A master key is a \<open>Buffer\<close> or a string. A function that
  calls \<open>crypto.randomBytes\<close> takes the tape and returns what is left of it; an
  exception is the result \<open>Inl\<close>.
\<close>

datatype key_material = KeyBuffer buffer | KeyString jsstring

definition keyLength :: nat where "keyLength = 32"
definition ivLength :: nat where "ivLength = 16"
definition saltLength :: nat where "saltLength = 32"
definition tagLength :: nat where "tagLength = 16"

text \<open>\<open>Buffer.isBuffer(masterKey) ? masterKey : Buffer.from(masterKey, "utf-8")\<close>\<close>

definition key_buffer :: "key_material \<Rightarrow> buffer" where
  "key_buffer masterKey = (case masterKey of KeyBuffer b \<Rightarrow> b | KeyString s \<Rightarrow> utf8_encode s)"

definition validateMasterKey :: "key_material \<Rightarrow> error option" where
  "validateMasterKey masterKey =
     (let keyBuffer = key_buffer masterKey
      in if length keyBuffer \<noteq> keyLength then Some (MasterKeyLength (length keyBuffer))
         else None)"

definition deriveKey ::
  "crypto \<Rightarrow> key_material \<Rightarrow> buffer option \<Rightarrow> entropy \<Rightarrow> (buffer \<times> buffer) \<times> entropy" where
  "deriveKey cr masterKey salt e =
     (let masterKeyBuffer = key_buffer masterKey;
          (saltBuffer, e') = (case salt of Some s \<Rightarrow> (s, e) | None \<Rightarrow> randomBytes saltLength e);
          iterations = 100000;
          key = pbkdf2Sync cr masterKeyBuffer saltBuffer iterations keyLength
      in ((key, saltBuffer), e'))"

definition encrypt ::
  "crypto \<Rightarrow> jsstring \<Rightarrow> key_material \<Rightarrow> entropy \<Rightarrow> (error + jsstring) \<times> entropy" where
  "encrypt cr plaintext masterKey e =
     (if plaintext = [] then (Inl PlaintextEmpty, e)
      else case validateMasterKey masterKey of
        Some err \<Rightarrow> (Inl err, e)
      | None \<Rightarrow>
          (let ((key, salt), e1) = deriveKey cr masterKey None e;
               (iv, e2) = randomBytes ivLength e1;
               (encrypted, tag) = gcm_seal cr key iv (utf8_encode plaintext);
               combined = salt @ iv @ tag @ encrypted
           in (Inr (base64_encode combined), e2)))"

text \<open>\<open>buf.subarray(start, stop)\<close> and \<open>buf.subarray(start)\<close>, for \<open>start \<le> stop\<close>.\<close>

definition subarray :: "buffer \<Rightarrow> nat \<Rightarrow> nat \<Rightarrow> buffer" where
  "subarray b start stop = take (stop - start) (drop start b)"

definition subarray_from :: "buffer \<Rightarrow> nat \<Rightarrow> buffer" where
  "subarray_from b start = drop start b"

definition too_short_message :: string where
  "too_short_message = ''Invalid ciphertext format: too short''"

definition auth_failed_message :: string where
  "auth_failed_message = ''Unsupported state or unable to authenticate data''"

definition decrypt ::
  "crypto \<Rightarrow> jsstring \<Rightarrow> key_material \<Rightarrow> entropy \<Rightarrow> (error + jsstring) \<times> entropy" where
  "decrypt cr ciphertext masterKey e =
     (if ciphertext = [] then (Inl CiphertextEmpty, e)
      else case validateMasterKey masterKey of
        Some err \<Rightarrow> (Inl err, e)
      | None \<Rightarrow>
          (let combined = base64_decode ciphertext
           in if length combined < saltLength + ivLength + tagLength
              then (Inl (DecryptionFailed too_short_message), e)
              else
                (let salt = subarray combined 0 saltLength;
                     iv = subarray combined saltLength (saltLength + ivLength);
                     tag = subarray combined (saltLength + ivLength)
                             (saltLength + ivLength + tagLength);
                     encrypted = subarray_from combined (saltLength + ivLength + tagLength);
                     ((key, _), e1) = deriveKey cr masterKey (Some salt) e
                 in case gcm_open cr key iv tag encrypted of
                      None \<Rightarrow> (Inl (DecryptionFailed auth_failed_message), e1)
                    | Some decrypted \<Rightarrow> (Inr (utf8_decode decrypted), e1))))"

definition generateMasterKey :: "entropy \<Rightarrow> jsstring \<times> entropy" where
  "generateMasterKey e = (let (b, e') = randomBytes 32 e in (base64_encode b, e'))"

section \<open>MemoryStore\<close>

text \<open>
  The in-memory store. Its methods are \<open>async\<close>, but each runs to its end before the
  caller goes on, so a call is one step on the contents of the map. \<open>createdAt\<close> is
  the reading of the clock.
\<close>

record KeyRecord =
  userId :: jsstring
  provider :: jsstring
  encryptedKey :: jsstring
  createdAt :: nat

text \<open>The \<open>Map<string, KeyRecord>\<close> of the store, keyed by \<open>`${userId}:${provider}`\<close>.\<close>

type_synonym MemoryStore = "jsstring \<rightharpoonup> KeyRecord"

definition store_key :: "jsstring \<Rightarrow> jsstring \<Rightarrow> jsstring" where
  "store_key uid prov = uid @ js '':'' @ prov"

definition MemoryStore_set :: "MemoryStore \<Rightarrow> KeyRecord \<Rightarrow> MemoryStore" where
  "MemoryStore_set st record = st(store_key (userId record) (provider record) \<mapsto> record)"

definition MemoryStore_get :: "MemoryStore \<Rightarrow> jsstring \<Rightarrow> jsstring \<Rightarrow> KeyRecord option" where
  "MemoryStore_get st uid prov = st (store_key uid prov)"

definition MemoryStore_delete :: "MemoryStore \<Rightarrow> jsstring \<Rightarrow> jsstring \<Rightarrow> bool \<times> MemoryStore" where
  "MemoryStore_delete st uid prov =
     (st (store_key uid prov) \<noteq> None, st(store_key uid prov := None))"

definition MemoryStore_has :: "MemoryStore \<Rightarrow> jsstring \<Rightarrow> jsstring \<Rightarrow> bool" where
  "MemoryStore_has st uid prov = (st (store_key uid prov) \<noteq> None)"

section \<open>GeminiProvider\<close>

text \<open>
  The world outside the vault: the contents of the store, the random tape, the clock read
  by \<open>new Date()\<close>, and the requests sent to the provider's service, each with the API
  key, the model and the prompt. The service itself is a parameter: it answers a request
  with an error or with a text, which may be missing.
\<close>

record world =
  store :: MemoryStore
  entropy :: entropy
  clock :: nat
  requests :: "(jsstring \<times> jsstring \<times> jsstring) list"

type_synonym service = "jsstring \<Rightarrow> jsstring \<Rightarrow> jsstring \<Rightarrow> error + jsstring option"

definition gemini :: jsstring where
  "gemini = js ''gemini''"

definition default_model :: jsstring where
  "default_model = js ''gemini-1.5-flash''"

text \<open>\<open>x || d\<close> on an optional string: a missing and an empty string are falsy.\<close>

definition or_default :: "jsstring option \<Rightarrow> jsstring \<Rightarrow> jsstring" where
  "or_default x d = (case x of None \<Rightarrow> d | Some v \<Rightarrow> if v = [] then d else v)"

definition falsy :: "jsstring option \<Rightarrow> bool" where
  "falsy x = (case x of None \<Rightarrow> True | Some v \<Rightarrow> v = [])"

text \<open>The string in a field that a check has found truthy.\<close>

definition field :: "jsstring option \<Rightarrow> jsstring" where
  "field x = (case x of None \<Rightarrow> [] | Some v \<Rightarrow> v)"

definition GeminiProvider_chat ::
  "service \<Rightarrow> jsstring \<Rightarrow> jsstring option \<Rightarrow> jsstring option \<Rightarrow> world \<Rightarrow>
   (error + jsstring) \<times> world" where
  "GeminiProvider_chat svc apiKey prompt model w =
     (if falsy prompt then (Inl PromptRequired, w)
      else
        (let modelId = or_default model default_model;
             w' = w\<lparr>requests := requests w @ [(apiKey, modelId, field prompt)]\<rparr>
         in case svc apiKey modelId (field prompt) of
              Inl err \<Rightarrow> (Inl err, w')
            | Inr answer \<Rightarrow> (Inr (case answer of None \<Rightarrow> [] | Some t \<Rightarrow> t), w')))"

section \<open>BYOK\<close>

text \<open>
  The vault. An instance holds the normalized master key; its \<open>Encryption\<close> object
  has no state, and its store is the one of the world. The fields of a request are
  optional strings, as they arrive from a caller that may leave them out.
\<close>

record BYOK =
  masterKey :: buffer

record RegisterKeyInput =
  reg_userId :: "jsstring option"
  reg_provider :: "jsstring option"
  reg_apiKey :: "jsstring option"

record ChatInput =
  chat_prompt :: "jsstring option"
  chat_model :: "jsstring option"
  chat_provider :: "jsstring option"

definition normalizeMasterKey :: "key_material \<Rightarrow> buffer" where
  "normalizeMasterKey mk =
     (case mk of
        KeyBuffer b \<Rightarrow> b
      | KeyString s \<Rightarrow>
          (let base64Buffer = base64_decode s
           in if length base64Buffer = 32 then base64Buffer else utf8_encode s))"

text \<open>
  The constructor. \<open>!config.masterKey\<close> holds of a missing key and of the empty string;
  a \<open>Buffer\<close> is an object and never falsy. The result is the instance and the
  contents of its store: those of \<open>config.store\<close>, or of a new \<open>MemoryStore\<close>.
\<close>

definition BYOK_new ::
  "key_material option \<Rightarrow> MemoryStore option \<Rightarrow> error + (BYOK \<times> MemoryStore)" where
  "BYOK_new config_masterKey config_store =
     (case config_masterKey of
        None \<Rightarrow> Inl MasterKeyRequired
      | Some mk \<Rightarrow>
          if mk = KeyString [] then Inl MasterKeyRequired
          else
            (let k = normalizeMasterKey mk
             in if length k \<noteq> 32 then Inl (ConfigKeyLength (length k))
                else Inr (\<lparr>masterKey = k\<rparr>,
                          case config_store of None \<Rightarrow> Map.empty | Some st \<Rightarrow> st)))"

definition ensureValid :: "BYOK \<Rightarrow> error option" where
  "ensureValid b = (if length (masterKey b) \<noteq> 32 then Some NotConfigured else None)"

text \<open>The test \<open>/^AI[a-zA-Z0-9_-]{10,}$/.test(apiKey)\<close>, on code units.\<close>

definition key_char_class :: "16 word \<Rightarrow> bool" where
  "key_char_class c =
     ((0x61 \<le> c \<and> c \<le> 0x7A) \<or> (0x41 \<le> c \<and> c \<le> 0x5A) \<or> (0x30 \<le> c \<and> c \<le> 0x39) \<or>
      c = 0x5F \<or> c = 0x2D)"

fun gemini_key_regex :: "jsstring \<Rightarrow> bool" where
  "gemini_key_regex (a # i # rest) =
     (a = 0x41 \<and> i = 0x49 \<and> 10 \<le> length (takeWhile key_char_class rest) \<and>
      dropWhile key_char_class rest = [])"
| "gemini_key_regex _ = False"

definition registerKey ::
  "crypto \<Rightarrow> BYOK \<Rightarrow> RegisterKeyInput \<Rightarrow> world \<Rightarrow> (error + unit) \<times> world" where
  "registerKey cr b input w =
     (case ensureValid b of
        Some err \<Rightarrow> (Inl err, w)
      | None \<Rightarrow>
          if falsy (reg_userId input) then (Inl UserIdRequired, w)
          else if falsy (reg_provider input) then (Inl ProviderRequired, w)
          else if falsy (reg_apiKey input) then (Inl ApiKeyRequired, w)
          else if field (reg_provider input) \<noteq> gemini then (Inl UnsupportedProvider, w)
          else if \<not> gemini_key_regex (field (reg_apiKey input))
            then (Inl InvalidApiKey, w)
          else
            (case encrypt cr (field (reg_apiKey input)) (KeyBuffer (masterKey b))
                    (entropy w) of
               (Inl err, e') \<Rightarrow> (Inl err, w\<lparr>entropy := e'\<rparr>)
             | (Inr blob, e') \<Rightarrow>
                 (Inr (),
                  w\<lparr>entropy := e',
                    store := MemoryStore_set (store w)
                      \<lparr>userId = field (reg_userId input),
                       provider = field (reg_provider input),
                       encryptedKey = blob,
                       createdAt = clock w\<rparr>\<rparr>)))"

definition deleteKey :: "BYOK \<Rightarrow> jsstring \<Rightarrow> jsstring \<Rightarrow> world \<Rightarrow> (error + bool) \<times> world" where
  "deleteKey b uid prov w =
     (case ensureValid b of
        Some err \<Rightarrow> (Inl err, w)
      | None \<Rightarrow>
          (let (existed, st') = MemoryStore_delete (store w) uid prov
           in (Inr existed, w\<lparr>store := st'\<rparr>)))"

definition hasKey :: "BYOK \<Rightarrow> jsstring \<Rightarrow> jsstring \<Rightarrow> world \<Rightarrow> error + bool" where
  "hasKey b uid prov w =
     (case ensureValid b of
        Some err \<Rightarrow> Inl err
      | None \<Rightarrow> Inr (MemoryStore_has (store w) uid prov))"

text \<open>\<open>use(userId)\<close> returns a handle bound to the instance and the user.\<close>

datatype handle = Handle BYOK jsstring

definition use :: "BYOK \<Rightarrow> jsstring \<Rightarrow> error + handle" where
  "use b uid = (case ensureValid b of Some err \<Rightarrow> Inl err | None \<Rightarrow> Inr (Handle b uid))"

fun chat ::
  "crypto \<Rightarrow> service \<Rightarrow> handle \<Rightarrow> ChatInput \<Rightarrow> world \<Rightarrow> (error + jsstring) \<times> world" where
  "chat cr svc (Handle self uid) input w =
     (let prov = or_default (chat_provider input) gemini
      in if prov \<noteq> gemini then (Inl UnsupportedProvider, w)
         else case MemoryStore_get (store w) uid prov of
           None \<Rightarrow> (Inl NoKeyFound, w)
         | Some record \<Rightarrow>
             (case decrypt cr (encryptedKey record) (KeyBuffer (masterKey self)) (entropy w) of
                (Inl err, e') \<Rightarrow> (Inl err, w\<lparr>entropy := e'\<rparr>)
              | (Inr apiKey, e') \<Rightarrow>
                  GeminiProvider_chat svc apiKey (chat_prompt input) (chat_model input)
                    (w\<lparr>entropy := e'\<rparr>)))"

section \<open>The specification's wording of the key shape\<close>

text \<open>
  The shape the specification gives for a Gemini key, in its own words: the prefix
  \<open>AI\<close> followed by at least 10 characters drawn from ASCII letters, digits, hyphen
  and underscore.
\<close>

definition spec_key_characters :: jsstring where
  "spec_key_characters =
     js ''ABCDEFGHIJKLMNOPQRSTUVWXYZabcdefghijklmnopqrstuvwxyz0123456789-_''"

definition spec_key_shape :: "jsstring \<Rightarrow> bool" where
  "spec_key_shape s =
     (take 2 s = js ''AI'' \<and> 10 \<le> length (drop 2 s) \<and>
      list_all (\<lambda>c. c \<in> set spec_key_characters) (drop 2 s))"

section \<open>An instance of the primitives\<close>

text \<open>
  A small cipher with the interface of the primitives: a keyed stream added to the
  plaintext and a 16-byte checksum as the tag. It is not AES; it shows that the
  assumptions on the primitives can be met and lets the definitions run on concrete
  inputs.
\<close>

definition mix :: "buffer \<Rightarrow> byte" where
  "mix b = fold (\<lambda>x acc. acc * 31 + x + 1) b 7"

definition model_pbkdf2 :: "buffer \<Rightarrow> buffer \<Rightarrow> nat \<Rightarrow> nat \<Rightarrow> buffer" where
  "model_pbkdf2 pw salt n len = map (\<lambda>i. mix (pw @ salt) + of_nat i) [0..<len]"

definition model_stream :: "buffer \<Rightarrow> buffer \<Rightarrow> nat \<Rightarrow> buffer" where
  "model_stream key iv len = map (\<lambda>i. mix (key @ iv) + of_nat i) [0..<len]"

definition model_tag :: "buffer \<Rightarrow> buffer \<Rightarrow> buffer \<Rightarrow> buffer" where
  "model_tag key iv ct = map (\<lambda>i. mix (key @ iv @ ct) + of_nat i) [0..<16]"

definition model_seal :: "buffer \<Rightarrow> buffer \<Rightarrow> buffer \<Rightarrow> buffer \<times> buffer" where
  "model_seal key iv pt =
     (let ct = map2 (+) pt (model_stream key iv (length pt)) in (ct, model_tag key iv ct))"

definition model_open :: "buffer \<Rightarrow> buffer \<Rightarrow> buffer \<Rightarrow> buffer \<Rightarrow> buffer option" where
  "model_open key iv tag ct =
     (if tag = model_tag key iv ct
      then Some (map2 (-) ct (model_stream key iv (length ct)))
      else None)"

definition model_crypto :: crypto where
  "model_crypto = \<lparr>pbkdf2Sync = model_pbkdf2, gcm_seal = model_seal, gcm_open = model_open\<rparr>"

definition zero_key :: key_material where
  "zero_key = KeyBuffer (replicate 32 0)"

definition zero_tape :: entropy where
  "zero_tape = (\<lambda>i. 0)"

section \<open>Names for the values of one call of \<open>encrypt\<close>\<close>

text \<open>
  The salt and the IV that a call of \<open>encrypt\<close> draws from the tape \<open>e\<close>, the key it
  derives, and the ciphertext and tag it gets from the cipher.
\<close>

definition drawn_salt :: "entropy \<Rightarrow> buffer" where
  "drawn_salt e = map e [0..<32]"

definition drawn_iv :: "entropy \<Rightarrow> buffer" where
  "drawn_iv e = map e [32..<48]"

definition derived_key :: "crypto \<Rightarrow> key_material \<Rightarrow> buffer \<Rightarrow> buffer" where
  "derived_key cr mk salt = pbkdf2Sync cr (key_buffer mk) salt 100000 32"

definition sealed :: "crypto \<Rightarrow> jsstring \<Rightarrow> key_material \<Rightarrow> entropy \<Rightarrow> buffer \<times> buffer" where
  "sealed cr p mk e =
     gcm_seal cr (derived_key cr mk (drawn_salt e)) (drawn_iv e) (utf8_encode p)"

definition is_base64_text :: "jsstring \<Rightarrow> bool" where
  "is_base64_text s =
     (length s mod 4 = 0 \<and>
      list_all (\<lambda>c. c \<in> set (js ''ABCDEFGHIJKLMNOPQRSTUVWXYZabcdefghijklmnopqrstuvwxyz0123456789+/='')) s)"

text \<open>\<open>decrypt(encrypt(p, k), k)\<close>: the blob of \<open>encrypt\<close> handed to \<open>decrypt\<close>.\<close>

definition decrypt_encrypt ::
  "crypto \<Rightarrow> jsstring \<Rightarrow> key_material \<Rightarrow> entropy \<Rightarrow> error + jsstring" where
  "decrypt_encrypt cr p k e =
     (case encrypt cr p k e of
        (Inl err, e') \<Rightarrow> Inl err
      | (Inr blob, e') \<Rightarrow> fst (decrypt cr blob k e'))"

section \<open>Concrete inputs\<close>

text \<open>
  A vault with the all-zero key, a world with an empty store, a rejected input and the
  input of the specification's end-to-end scenario.
\<close>

definition zero_vault :: BYOK where
  "zero_vault = \<lparr>masterKey = replicate 32 0\<rparr>"

definition empty_world :: world where
  "empty_world = \<lparr>store = Map.empty, entropy = zero_tape, clock = 0, requests = []\<rparr>"

definition bad_input :: RegisterKeyInput where
  "bad_input = \<lparr>reg_userId = Some (js ''u1''), reg_provider = Some gemini,
                reg_apiKey = Some (js ''bad'')\<rparr>"

definition good_input :: RegisterKeyInput where
  "good_input = \<lparr>reg_userId = Some (js ''u1''), reg_provider = Some gemini,
                 reg_apiKey = Some (js ''AIzaSyAAAAAAAAAAAAAAAAAAAAAAAAAAA'')\<rparr>"

text \<open>A tape whose bytes count up, and a world that reads it.\<close>

definition ramp_tape :: entropy where
  "ramp_tape = (\<lambda>i. of_nat i)"

definition ramp_world :: world where
  "ramp_world = \<lparr>store = Map.empty, entropy = ramp_tape, clock = 0, requests = []\<rparr>"

text \<open>The chat request of the end-to-end scenario: a prompt, no model, no provider.\<close>

definition hi_input :: ChatInput where
  "hi_input = \<lparr>chat_prompt = Some (js ''hi''), chat_model = None, chat_provider = None\<rparr>"

text \<open>A provider service that answers every request with the text of the prompt.\<close>

definition echo_service :: service where
  "echo_service = (\<lambda>apiKey modelId prompt. Inr (Some prompt))"

text \<open>
  The blob that \<open>encrypt\<close> returns for the plaintext \<open>A\<close> under the all-zero key,
  the all-zero tape and the model cipher; the same blob with its last digit \<open>g\<close>
  replaced by \<open>h\<close>; and a blob of four characters.
\<close>

definition sample_blob :: jsstring where
  "sample_blob =
     js ''AAAAAAAAAAAAAAAAAAAAAAAAAAAAAAAAAAAAAAAAAAAAAAAAAAAAAAAAAAAAAAAAIiMkJSYnKCkqKywtLi8wMVg=''"

definition altered_blob :: jsstring where
  "altered_blob =
     js ''AAAAAAAAAAAAAAAAAAAAAAAAAAAAAAAAAAAAAAAAAAAAAAAAAAAAAAAAAAAAAAAAIiMkJSYnKCkqKywtLi8wMVh=''"






text \<open>The store a new instance uses: the one configured, or a new empty one.\<close>

definition store_or_new :: "MemoryStore option \<Rightarrow> MemoryStore" where
  "store_or_new config_store = (case config_store of None \<Rightarrow> Map.empty | Some st \<Rightarrow> st)"

section \<open>Properties of the codecs\<close>

lemma b64_digit_alphabet:
  "map b64_digit [0..<64] =
   map of_char ''ABCDEFGHIJKLMNOPQRSTUVWXYZabcdefghijklmnopqrstuvwxyz0123456789+/''"
  by code_simp

lemma b64_digit_facts:
  assumes "n < 64"
  shows "unbase64 (b64_digit n) = Some n" "b64_digit n \<noteq> 61" "b64_digit n < 128"
  using assms by (auto simp: unbase64_def b64_digit_def)

lemma base64_sextets_Nil [simp]: "base64_sextets [] = []"
  by (simp add: base64_sextets_def List.map_filter_simps)

lemma base64_sextets_Cons:
  "base64_sextets (c # cs) =
     (if c = 61 then []
      else case unbase64 c of None \<Rightarrow> base64_sextets cs | Some v \<Rightarrow> v # base64_sextets cs)"
  by (simp add: base64_sextets_def List.map_filter_simps split: option.splits)

lemma base64_sextets_digit [simp]:
  "n < 64 \<Longrightarrow> base64_sextets (b64_digit n # cs) = n # base64_sextets cs"
  by (simp add: base64_sextets_Cons b64_digit_facts)

lemma base64_sextets_pad [simp]: "base64_sextets (61 # cs) = []"
  by (simp add: base64_sextets_Cons)

lemma sextets_bytes_base64_chars:
  "\<forall>x\<in>set bs. x < 256 \<Longrightarrow> sextets_bytes (base64_sextets (base64_chars bs)) = bs"
proof (induction bs rule: base64_chars.induct)
  case (1 a b c r)
  have a: "a < 256" and b: "b < 256" and c: "c < 256" using 1(2) by auto
  have s: "a div 4 < 64" "(a mod 4) * 16 + b div 16 < 64" "(b mod 16) * 4 + c div 64 < 64" "c mod 64 < 64"
    using a b c by simp_all
  have rest: "sextets_bytes (base64_sextets (base64_chars r)) = r" using 1 by simp
  show ?case using s rest b c by simp
next
  case (2 a b)
  then have a: "a < 256" and b: "b < 256" by auto
  have s: "a div 4 < 64" "(a mod 4) * 16 + b div 16 < 64" "(b mod 16) * 4 < 64"
    using a b by simp_all
  show ?case using s b by simp
next
  case (3 a)
  then have a: "a < 256" by auto
  have s: "a div 4 < 64" "(a mod 4) * 16 < 64" using a by simp_all
  show ?case using s by simp
next
  case 4
  show ?case by simp
qed

lemma code_point_units_split:
  "y < 1024 \<Longrightarrow> code_point_units (0x10000 + (x * 1024 + y)) = [0xD800 + x, 0xDC00 + y]"
  by (simp add: code_point_units_def)

lemma surrogate_pair_value_split:
  assumes "is_high_surrogate h" "is_low_surrogate l"
  shows "\<exists>x y. y < 1024 \<and> x < 1024 \<and> h = 0xD800 + x \<and> l = 0xDC00 + y \<and>
           surrogate_pair_value h l = 0x10000 + (x * 1024 + y)"
proof (intro exI conjI)
  show "l - 0xDC00 < 1024" "h - 0xD800 < 1024" "h = 0xD800 + (h - 0xD800)" "l = 0xDC00 + (l - 0xDC00)"
    using assms by (auto simp add: is_high_surrogate_def is_low_surrogate_def)
  show "surrogate_pair_value h l = 0x10000 + ((h - 0xD800) * 1024 + (l - 0xDC00))"
    by (simp add: surrogate_pair_value_def)
qed

lemma code_point_units_pair:
  assumes "is_high_surrogate h" "is_low_surrogate l"
  shows "code_point_units (surrogate_pair_value h l) = [h, l]"
proof -
  obtain x y where y: "y < 1024" and h: "h = 0xD800 + x" and l: "l = 0xDC00 + y"
    and v: "surrogate_pair_value h l = 0x10000 + (x * 1024 + y)"
    using surrogate_pair_value_split[OF assms] by blast
  have "code_point_units (surrogate_pair_value h l) = [0xD800 + x, 0xDC00 + y]"
    unfolding v by (rule code_point_units_split[OF y])
  also have "\<dots> = [h, l]" by (simp only: h l)
  finally show ?thesis .
qed

lemma surrogate_pair_value_range:
  assumes "is_high_surrogate h" "is_low_surrogate l"
  shows "0x10000 \<le> surrogate_pair_value h l" "surrogate_pair_value h l < 0x110000"
proof -
  obtain x y where y: "y < 1024" and x: "x < 1024"
    and v: "surrogate_pair_value h l = 0x10000 + (x * 1024 + y)"
    using surrogate_pair_value_split[OF assms] by blast
  show "0x10000 \<le> surrogate_pair_value h l" "surrogate_pair_value h l < 0x110000"
    using x y by (simp_all add: v)
qed

lemma second_ok_3:
  assumes "0x800 \<le> u" "u < 0x10000" "\<not> is_high_surrogate u" "\<not> is_low_surrogate u"
  shows "second_ok (0xE0 + u div 4096) (0x80 + (u div 64) mod 64)"
proof -
  have m: "(u div 64) mod 64 < 64" by simp
  have e: "u div 64 = (u div 64 div 64) * 64 + u div 64 mod 64" by simp
  have q: "u div 64 div 64 = u div 4096" by (simp add: div_mult2_eq[symmetric])
  have lo: "u div 4096 = 0 \<Longrightarrow> 32 \<le> (u div 64) mod 64"
  proof -
    assume z: "u div 4096 = 0"
    have "32 \<le> u div 64" using assms(1) by simp
    with e q z show ?thesis by simp
  qed
  have hi: "u div 4096 = 13 \<Longrightarrow> (u div 64) mod 64 \<le> 31"
  proof -
    assume z: "u div 4096 = 13"
    have "u < 0xD800" using assms(3,4) z
      by (auto simp add: is_high_surrogate_def is_low_surrogate_def)
    then have "u div 64 < 864" by simp
    with e q z show ?thesis by linarith
  qed
  have t: "u div 4096 < 16" using assms(2) by simp
  show ?thesis unfolding second_ok_def using m lo hi t by auto
qed

lemma second_ok_4:
  assumes "0x10000 \<le> cp" "cp < 0x110000"
  shows "second_ok (0xF0 + cp div 262144) (0x80 + (cp div 4096) mod 64)"
proof -
  have m: "(cp div 4096) mod 64 < 64" by simp
  have e: "cp div 4096 = (cp div 4096 div 64) * 64 + cp div 4096 mod 64" by simp
  have q: "cp div 4096 div 64 = cp div 262144" by (simp add: div_mult2_eq[symmetric])
  have lo: "cp div 262144 = 0 \<Longrightarrow> 16 \<le> (cp div 4096) mod 64"
  proof -
    assume z: "cp div 262144 = 0"
    have "16 \<le> cp div 4096" using assms(1) by simp
    with e q z show ?thesis by simp
  qed
  have hi: "cp div 262144 = 4 \<Longrightarrow> (cp div 4096) mod 64 \<le> 15"
  proof -
    assume z: "cp div 262144 = 4"
    have "cp div 4096 < 272" using assms(2) by simp
    with e q z show ?thesis by linarith
  qed
  show ?thesis unfolding second_ok_def using m lo hi by auto
qed

lemma utf8_dec_1: "u < 0x80 \<Longrightarrow> utf8_dec (utf8_1 u @ r) = u # utf8_dec r"
  by (simp add: utf8_1_def)

lemma utf8_dec_2:
  assumes "0x80 \<le> u" "u < 0x800"
  shows "utf8_dec (utf8_2 u @ r) = u # utf8_dec r"
proof -
  let ?b = "0xC0 + u div 64" and ?c = "0x80 + u mod 64"
  have b: "\<not> ?b < 0x80" "0xC2 \<le> ?b" "?b \<le> 0xDF" using assms by simp_all
  have c: "is_cont ?c" by (simp add: is_cont_def)
  have v: "(?b - 0xC0) * 64 + (?c - 0x80) = u" by simp
  show ?thesis unfolding utf8_2_def using b c v by simp
qed

lemma utf8_dec_3:
  assumes "0x800 \<le> u" "u < 0x10000" "\<not> is_high_surrogate u" "\<not> is_low_surrogate u"
  shows "utf8_dec (utf8_3 u @ r) = u # utf8_dec r"
proof -
  let ?b = "0xE0 + u div 4096" and ?c = "0x80 + (u div 64) mod 64" and ?d = "0x80 + u mod 64"
  have b: "\<not> ?b < 0x80" "\<not> (0xC2 \<le> ?b \<and> ?b \<le> 0xDF)" "0xE0 \<le> ?b" "?b \<le> 0xEF"
    using assms by simp_all
  have c: "second_ok ?b ?c" by (rule second_ok_3[OF assms])
  have d: "is_cont ?d" by (simp add: is_cont_def)
  have e1: "u = (u div 64) * 64 + u mod 64" by simp
  have e2: "u div 64 = (u div 64 div 64) * 64 + u div 64 mod 64" by simp
  have q: "u div 64 div 64 = u div 4096" by (simp add: div_mult2_eq[symmetric])
  have "(u div 4096) * 4096 + ((u div 64) mod 64) * 64 + u mod 64 = u"
    using e1 e2 q by linarith
  then have v: "(?b - 0xE0) * 4096 + (?c - 0x80) * 64 + (?d - 0x80) = u"
    by simp
  show ?thesis unfolding utf8_3_def using b c d v by simp
qed

lemma utf8_dec_4:
  assumes "0x10000 \<le> cp" "cp < 0x110000"
  shows "utf8_dec (utf8_4 cp @ r) = code_point_units cp @ utf8_dec r"
proof -
  let ?b = "0xF0 + cp div 262144" and ?c = "0x80 + (cp div 4096) mod 64"
  let ?d = "0x80 + (cp div 64) mod 64" and ?e = "0x80 + cp mod 64"
  have b: "\<not> ?b < 0x80" "\<not> (0xC2 \<le> ?b \<and> ?b \<le> 0xDF)" "\<not> (0xE0 \<le> ?b \<and> ?b \<le> 0xEF)"
          "0xF0 \<le> ?b" "?b \<le> 0xF4"
    using assms by simp_all
  have c: "second_ok ?b ?c" by (rule second_ok_4[OF assms])
  have d: "is_cont ?d" "is_cont ?e" by (simp_all add: is_cont_def)
  have e1: "cp = (cp div 64) * 64 + cp mod 64" by simp
  have e2: "cp div 64 = (cp div 64 div 64) * 64 + cp div 64 mod 64" by simp
  have e3: "cp div 4096 = (cp div 4096 div 64) * 64 + cp div 4096 mod 64" by simp
  have q1: "cp div 64 div 64 = cp div 4096" by (simp add: div_mult2_eq[symmetric])
  have q2: "cp div 4096 div 64 = cp div 262144" by (simp add: div_mult2_eq[symmetric])
  have "(cp div 262144) * 262144 + ((cp div 4096) mod 64) * 4096 +
          ((cp div 64) mod 64) * 64 + cp mod 64 = cp"
    using e1 e2 e3 q1 q2 by linarith
  then have v: "(?b - 0xF0) * 262144 + (?c - 0x80) * 4096 + (?d - 0x80) * 64 + (?e - 0x80) = cp"
    by simp
  show ?thesis unfolding utf8_4_def using b c d v by simp
qed

declare utf8_dec.simps [simp del]

lemma utf8_dec_Nil [simp]: "utf8_dec [] = []"
  by (simp add: utf8_dec.simps)

lemma utf8_dec_units:
  "well_formed_units us \<Longrightarrow> \<forall>u\<in>set us. u < 0x10000 \<Longrightarrow> utf8_dec (utf8_units us) = us"
proof (induction us rule: utf8_units.induct)
  case 1
  show ?case by simp
next
  case (2 u)
  then have w: "\<not> is_high_surrogate u" "\<not> is_low_surrogate u" and r: "u < 0x10000" by simp_all
  show ?case
    using w r utf8_dec_1[of u "[]"] utf8_dec_2[of u "[]"] utf8_dec_3[of u "[]"]
    by (simp add: not_less)
next
  case (3 u v vs)
  have r: "u < 0x10000" "v < 0x10000" "\<forall>x\<in>set vs. x < 0x10000" using 3(7) by simp_all
  show ?case
  proof (cases "is_high_surrogate u")
    case True
    then have lv: "is_low_surrogate v" and wv: "well_formed_units vs" using 3(6) by simp_all
    have big: "\<not> u < 0x80" "\<not> u < 0x800" using True by (simp_all add: is_high_surrogate_def)
    have ih: "utf8_dec (utf8_units vs) = vs" using 3(3) big True lv wv r by simp
    show ?thesis
      using big True lv ih utf8_dec_4[OF surrogate_pair_value_range[OF True lv]]
        code_point_units_pair[OF True lv]
      by simp
  next
    case False
    then have lu: "\<not> is_low_surrogate u" and wv: "well_formed_units (v # vs)" using 3(6) by simp_all
    have rv: "\<forall>x\<in>set (v # vs). x < 0x10000" using r by simp
    show ?thesis
    proof (cases "u < 0x80")
      case True
      then show ?thesis using 3(1) wv rv utf8_dec_1[of u] by simp
    next
      case a: False
      show ?thesis
      proof (cases "u < 0x800")
        case True
        then show ?thesis using a 3(2) wv rv utf8_dec_2[of u] by (simp add: not_less)
      next
        case b: False
        have "utf8_dec (utf8_units (v # vs)) = v # vs" using 3(5) a b False lu wv rv by simp
        then show ?thesis using a b False lu r(1) utf8_dec_3[of u] by (simp add: not_less)
      qed
    qed
  qed
qed

lemma utf8_4_range: "cp < 0x110000 \<Longrightarrow> \<forall>b\<in>set (utf8_4 cp). b < 256"
proof -
  assume "cp < 0x110000"
  then have "cp div 262144 < 5" by simp
  moreover have "(cp div 4096) mod 64 < 64" "(cp div 64) mod 64 < 64" "cp mod 64 < 64"
    by simp_all
  ultimately show ?thesis unfolding utf8_4_def by auto
qed

lemma utf8_3_range: "u < 0x10000 \<Longrightarrow> \<forall>b\<in>set (utf8_3 u). b < 256"
proof -
  assume "u < 0x10000"
  then have "u div 4096 < 16" by simp
  moreover have "(u div 64) mod 64 < 64" "u mod 64 < 64" by simp_all
  ultimately show ?thesis unfolding utf8_3_def by auto
qed

lemma utf8_2_range: "u < 0x800 \<Longrightarrow> \<forall>b\<in>set (utf8_2 u). b < 256"
proof -
  assume "u < 0x800"
  then have "u div 64 < 32" by simp
  moreover have "u mod 64 < 64" by simp
  ultimately show ?thesis unfolding utf8_2_def by auto
qed

lemma utf8_units_range:
  "\<forall>u\<in>set us. u < 0x10000 \<Longrightarrow> \<forall>b\<in>set (utf8_units us). b < 256"
proof (induction us rule: utf8_units.induct)
  case 1
  show ?case by simp
next
  case (2 u)
  then have r: "u < 0x10000" by simp
  have p3: "\<forall>b\<in>set (utf8_3 u). b < 256" using r by (rule utf8_3_range)
  have p2: "u < 0x800 \<Longrightarrow> \<forall>b\<in>set (utf8_2 u). b < 256" by (rule utf8_2_range)
  have pr: "\<forall>b\<in>set (utf8_3 0xFFFD). b < 256" by (rule utf8_3_range) simp
  show ?case using p3 p2 pr by (auto simp add: utf8_1_def)
next
  case (3 u v vs)
  have r: "u < 0x10000" "\<forall>x\<in>set (v # vs). x < 0x10000" "\<forall>x\<in>set vs. x < 0x10000"
    using 3(6) by simp_all
  have p4: "\<forall>b\<in>set (utf8_4 (surrogate_pair_value u v)). b < 256"
    if "is_high_surrogate u" "is_low_surrogate v"
    using surrogate_pair_value_range[OF that] utf8_4_range by blast
  have p3: "\<forall>b\<in>set (utf8_3 u). b < 256" using r(1) by (rule utf8_3_range)
  have p2: "u < 0x800 \<Longrightarrow> \<forall>b\<in>set (utf8_2 u). b < 256" by (rule utf8_2_range)
  have pr: "\<forall>b\<in>set (utf8_3 0xFFFD). b < 256" by (rule utf8_3_range) simp
  show ?case using 3(1-5) r p4 p3 p2 pr by (auto simp add: utf8_1_def)
qed



lemma map_unat_of_nat_byte:
  "\<forall>x\<in>set xs. x < 256 \<Longrightarrow> map unat (map of_nat xs :: byte list) = xs"
  by (induction xs) (simp_all add: unat_of_nat)

lemma map_unat_of_nat_unit:
  "\<forall>x\<in>set xs. x < 65536 \<Longrightarrow> map unat (map of_nat xs :: 16 word list) = xs"
  by (induction xs) (simp_all add: unat_of_nat)

lemma map_of_nat_unat: "map of_nat (map unat ws) = ws"
  by (induction ws) simp_all

lemma unat_byte_less: "unat (b :: byte) < 256"
  using unsigned_less[of b] by simp

lemma unat_unit_less: "unat (u :: 16 word) < 65536"
  using unsigned_less[of u] by simp

lemma base64_chars_range:
  "\<forall>x\<in>set bs. x < 256 \<Longrightarrow> \<forall>c\<in>set (base64_chars bs). c < 128"
proof (induction bs rule: base64_chars.induct)
  case (1 a b c r)
  have a: "a < 256" and b: "b < 256" and c: "c < 256" using 1(2) by auto
  have s: "a div 4 < 64" "(a mod 4) * 16 + b div 16 < 64" "(b mod 16) * 4 + c div 64 < 64" "c mod 64 < 64"
    using a b c by simp_all
  show ?case using 1 s[THEN b64_digit_facts(3)] by simp
next
  case (2 a b)
  then have a: "a < 256" and b: "b < 256" by auto
  have s: "a div 4 < 64" "(a mod 4) * 16 + b div 16 < 64" "(b mod 16) * 4 < 64"
    using a b by simp_all
  show ?case using s[THEN b64_digit_facts(3)] by simp
next
  case (3 a)
  then have a: "a < 256" by auto
  have s: "a div 4 < 64" "(a mod 4) * 16 < 64" using a by simp_all
  show ?case using s[THEN b64_digit_facts(3)] by simp
next
  case 4
  show ?case by simp
qed

lemma base64_decode_encode: "base64_decode (base64_encode b) = b"
proof -
  have r: "\<forall>x\<in>set (map unat b). x < 256" by (simp add: unat_byte_less)
  have "\<forall>c\<in>set (base64_chars (map unat b)). c < 65536"
    using base64_chars_range[OF r] by fastforce
  then have "map unat (map of_nat (base64_chars (map unat b)) :: 16 word list) = base64_chars (map unat b)"
    by (rule map_unat_of_nat_unit)
  then have "base64_decode (base64_encode b) =
      map of_nat (sextets_bytes (base64_sextets (base64_chars (map unat b))))"
    by (simp only: base64_decode_def base64_encode_def)
  also have "\<dots> = map of_nat (map unat b)"
    by (simp only: sextets_bytes_base64_chars[OF r])
  also have "\<dots> = b" by (rule map_of_nat_unat)
  finally show ?thesis .
qed

lemma utf8_decode_encode:
  assumes "well_formed s"
  shows "utf8_decode (utf8_encode s) = s"
proof -
  have r: "\<forall>u\<in>set (map unat s). u < 0x10000" using unat_unit_less by simp
  have "map unat (map of_nat (utf8_units (map unat s)) :: byte list) = utf8_units (map unat s)"
    using utf8_units_range[OF r] by (rule map_unat_of_nat_byte)
  then have "utf8_decode (utf8_encode s) = map of_nat (utf8_dec (utf8_units (map unat s)))"
    by (simp only: utf8_decode_def utf8_encode_def)
  also have "\<dots> = map of_nat (map unat s)"
    using assms utf8_dec_units[OF _ r] by (simp only: well_formed_def)
  also have "\<dots> = s" by (rule map_of_nat_unat)
  finally show ?thesis .
qed




lemma length_base64_chars: "length (base64_chars bs) = 4 * ((length bs + 2) div 3)"
proof (induction bs rule: base64_chars.induct)
  case (1 a b c r)
  have "(length (a # b # c # r) + 2) div 3 = Suc ((length r + 2) div 3)" by simp
  then show ?case using 1 by simp
qed simp_all

lemma base64_encode_Nil_iff: "base64_encode b = [] \<longleftrightarrow> b = []"
proof -
  have "length (base64_encode b) = 4 * ((length b + 2) div 3)"
    by (simp add: base64_encode_def length_base64_chars)
  then show ?thesis by (cases b) auto
qed



section \<open>Properties of \<open>encrypt\<close> and \<open>decrypt\<close>\<close>

lemma randomBytes_salt: "randomBytes 32 e = (drawn_salt e, \<lambda>i. e (32 + i))"
  by (simp add: randomBytes_def drawn_salt_def)

lemma map_shift_upt: "map (\<lambda>i. f (m + i)) [0..<n] = map f [m..<m + n]"
proof -
  have "map f [m..<m + n] = map f (map (\<lambda>i. i + m) [0..<n])"
    by (simp only: map_add_upt add.commute)
  then show ?thesis by (simp add: comp_def add.commute)
qed

lemma randomBytes_iv: "randomBytes 16 (\<lambda>i. e (32 + i)) = (drawn_iv e, \<lambda>i. e (48 + i))"
proof -
  have "map (\<lambda>i. e (32 + i)) [0..<16] = map e [32..<32 + 16]" by (rule map_shift_upt)
  then show ?thesis by (simp add: randomBytes_def drawn_iv_def add.assoc)
qed

lemma length_drawn [simp]: "length (drawn_salt e) = 32" "length (drawn_iv e) = 16"
  by (simp_all add: drawn_salt_def drawn_iv_def)

lemma validateMasterKey_ok: "validateMasterKey mk = None \<longleftrightarrow> length (key_buffer mk) = 32"
  by (simp add: validateMasterKey_def keyLength_def Let_def)

lemma validateMasterKey_bad:
  "length (key_buffer mk) \<noteq> 32 \<Longrightarrow>
   validateMasterKey mk = Some (MasterKeyLength (length (key_buffer mk)))"
  by (simp add: validateMasterKey_def keyLength_def Let_def)

lemma encrypt_eq:
  assumes "p \<noteq> []" "length (key_buffer mk) = 32"
  shows "encrypt cr p mk e =
           (Inr (base64_encode (drawn_salt e @ drawn_iv e @ snd (sealed cr p mk e) @
                                fst (sealed cr p mk e))),
            \<lambda>i. e (48 + i))"
proof -
  have v: "validateMasterKey mk = None" using assms(2) by (simp add: validateMasterKey_ok)
  have d: "deriveKey cr mk None e =
             ((derived_key cr mk (drawn_salt e), drawn_salt e), \<lambda>i. e (32 + i))"
    by (simp add: deriveKey_def saltLength_def keyLength_def randomBytes_salt derived_key_def)
  show ?thesis
    using assms(1)
    by (simp add: encrypt_def v d ivLength_def randomBytes_iv sealed_def split: prod.splits)
qed

lemma decrypt_eq:
  assumes "c \<noteq> []" "length (key_buffer mk) = 32" "64 \<le> length (base64_decode c)"
  shows "decrypt cr c mk e =
           (case gcm_open cr (derived_key cr mk (take 32 (base64_decode c)))
                   (take 16 (drop 32 (base64_decode c)))
                   (take 16 (drop 48 (base64_decode c)))
                   (drop 64 (base64_decode c)) of
              None \<Rightarrow> Inl (DecryptionFailed auth_failed_message)
            | Some pt \<Rightarrow> Inr (utf8_decode pt),
            e)"
proof -
  have v: "validateMasterKey mk = None" using assms(2) by (simp add: validateMasterKey_ok)
  have d: "deriveKey cr mk (Some s) e = ((derived_key cr mk s, s), e)" for s
    by (simp add: deriveKey_def keyLength_def derived_key_def)
  show ?thesis
    using assms(1,3)
    by (simp add: decrypt_def v d saltLength_def ivLength_def tagLength_def subarray_def
        subarray_from_def split: option.splits)
qed

lemma decrypt_short:
  assumes "c \<noteq> []" "length (key_buffer mk) = 32" "length (base64_decode c) < 64"
  shows "decrypt cr c mk e = (Inl (DecryptionFailed too_short_message), e)"
proof -
  have v: "validateMasterKey mk = None" using assms(2) by (simp add: validateMasterKey_ok)
  show ?thesis using assms(1,3)
    by (simp add: decrypt_def v saltLength_def ivLength_def tagLength_def)
qed

lemma decrypt_empty: "decrypt cr [] mk e = (Inl CiphertextEmpty, e)"
  by (simp add: decrypt_def)

lemma decrypt_entropy: "snd (decrypt cr c mk e) = e"
proof (cases "c = []")
  case True
  then show ?thesis by (simp add: decrypt_empty)
next
  case False
  show ?thesis
  proof (cases "length (key_buffer mk) = 32")
    case k: True
    show ?thesis
    proof (cases "length (base64_decode c) < 64")
      case True
      then show ?thesis using False k by (simp add: decrypt_short)
    next
      case s: False
      then show ?thesis using False k by (simp add: decrypt_eq)
    qed
  next
    case b: False
    then show ?thesis using False by (simp add: decrypt_def validateMasterKey_bad)
  qed
qed

lemma slices:
  assumes "length s = 32" "length i = 16" "length t = 16"
  shows "take 32 (s @ i @ t @ c) = s" "take 16 (drop 32 (s @ i @ t @ c)) = i"
        "take 16 (drop 48 (s @ i @ t @ c)) = t" "drop 64 (s @ i @ t @ c) = c"
  using assms by simp_all

lemma sealed_shape:
  assumes "pbkdf2_length cr" "gcm_lengths cr"
  shows "length (fst (sealed cr p mk e)) = length (utf8_encode p)"
        "length (snd (sealed cr p mk e)) = 16"
proof -
  have k: "length (derived_key cr mk (drawn_salt e)) = 32"
    using assms(1) by (simp add: pbkdf2_length_def derived_key_def)
  show "length (fst (sealed cr p mk e)) = length (utf8_encode p)"
        "length (snd (sealed cr p mk e)) = 16"
    using assms(2) k unfolding gcm_lengths_def sealed_def by simp_all
qed

lemma sealed_lengths:
  assumes "crypto_contract cr"
  shows "length (fst (sealed cr p mk e)) = length (utf8_encode p)"
        "length (snd (sealed cr p mk e)) = 16"
  using assms sealed_shape[of cr p mk e] by (simp_all add: crypto_contract_def)

lemma open_sealed:
  assumes "crypto_contract cr"
  shows "gcm_open cr (derived_key cr mk (drawn_salt e)) (drawn_iv e)
           (snd (sealed cr p mk e)) (fst (sealed cr p mk e)) = Some (utf8_encode p)"
proof -
  have k: "length (derived_key cr mk (drawn_salt e)) = 32"
    using assms by (simp add: crypto_contract_def pbkdf2_length_def derived_key_def)
  have t: "length (snd (sealed cr p mk e)) = 16" by (rule sealed_lengths(2)[OF assms])
  have "gcm_inverse cr" using assms by (simp add: crypto_contract_def)
  then show ?thesis
    using k t unfolding gcm_inverse_def sealed_def by simp
qed

lemma decrypt_encrypt_eq:
  assumes "crypto_contract cr" "length (key_buffer k) = 32" "p \<noteq> []"
  shows "decrypt_encrypt cr p k e = Inr (utf8_decode (utf8_encode p))"
proof -
  let ?s = "drawn_salt e" and ?i = "drawn_iv e"
  let ?t = "snd (sealed cr p k e)" and ?c = "fst (sealed cr p k e)"
  let ?blob = "base64_encode (?s @ ?i @ ?t @ ?c)"
  have t: "length ?t = 16" by (rule sealed_lengths(2)[OF assms(1)])
  have ne: "?blob \<noteq> []" by (simp add: base64_encode_Nil_iff drawn_salt_def)
  have d: "base64_decode ?blob = ?s @ ?i @ ?t @ ?c" by (rule base64_decode_encode)
  have len: "64 \<le> length (base64_decode ?blob)" unfolding d using t by simp
  have sl: "take 32 (?s @ ?i @ ?t @ ?c) = ?s" "take 16 (drop 32 (?s @ ?i @ ?t @ ?c)) = ?i"
      "take 16 (drop 48 (?s @ ?i @ ?t @ ?c)) = ?t" "drop 64 (?s @ ?i @ ?t @ ?c) = ?c"
    using slices[OF _ _ t, of ?s ?i ?c] by simp_all
  have "decrypt cr ?blob k e' = (Inr (utf8_decode (utf8_encode p)), e')" for e'
    unfolding decrypt_eq[OF ne assms(2) len] d sl open_sealed[OF assms(1)] by simp
  then show ?thesis
    by (simp add: decrypt_encrypt_def encrypt_eq[OF assms(3,2)])
qed

lemma model_crypto_contract: "crypto_contract model_crypto"
proof -
  have l: "length (model_stream key iv n) = n" for key iv n
    by (simp add: model_stream_def)
  have add_sub: "map2 (-) (map2 (+) pt st) st = pt" if "length st = length pt"
    for pt st :: buffer
    using that by (induction pt st rule: list_induct2') simp_all
  have sub_add: "map2 (+) (map2 (-) ct st) st = ct" if "length st = length ct"
    for ct st :: buffer
    using that by (induction ct st rule: list_induct2') simp_all
  have p: "pbkdf2_length model_crypto"
    by (simp add: pbkdf2_length_def model_crypto_def model_pbkdf2_def)
  have g: "gcm_lengths model_crypto"
    by (simp add: gcm_lengths_def model_crypto_def model_seal_def Let_def l model_tag_def)
  have "(model_open key iv tag ct = Some pt) = (model_seal key iv pt = (ct, tag))"
    for key iv tag ct pt
  proof
    assume "model_open key iv tag ct = Some pt"
    then have tg: "tag = model_tag key iv ct"
      and pt: "pt = map2 (-) ct (model_stream key iv (length ct))"
      by (auto simp add: model_open_def split: if_splits)
    have lp: "length pt = length ct" by (simp add: pt l)
    show "model_seal key iv pt = (ct, tag)"
      unfolding model_seal_def Let_def lp
      by (simp add: pt tg sub_add l)
  next
    assume "model_seal key iv pt = (ct, tag)"
    then have ct: "ct = map2 (+) pt (model_stream key iv (length pt))"
      and tg: "tag = model_tag key iv ct"
      by (auto simp add: model_seal_def Let_def)
    have lc: "length ct = length pt" by (simp add: ct l)
    show "model_open key iv tag ct = Some pt"
      unfolding model_open_def lc using tg
      by (simp add: ct add_sub l)
  qed
  then have i: "gcm_inverse model_crypto"
    by (simp add: gcm_inverse_def model_crypto_def)
  show ?thesis using p g i by (simp add: crypto_contract_def)
qed

lemma model_crypto_lengths: "pbkdf2_length model_crypto" "gcm_lengths model_crypto"
  using model_crypto_contract by (simp_all add: crypto_contract_def)

lemma zero_key_length: "length (key_buffer zero_key) = 32"
  by (simp add: zero_key_def key_buffer_def)

lemma alphabet_codes:
  "js ''ABCDEFGHIJKLMNOPQRSTUVWXYZabcdefghijklmnopqrstuvwxyz0123456789+/='' =
   map of_nat ([65..<91] @ [97..<123] @ [48..<58] @ [43, 47, 61])"
  by (simp add: js_def upt_rec_numeral)

lemma digit_in_alphabet:
  assumes "n < 64"
  shows "(of_nat (b64_digit n) :: 16 word) \<in>
           set (js ''ABCDEFGHIJKLMNOPQRSTUVWXYZabcdefghijklmnopqrstuvwxyz0123456789+/='')"
proof -
  have "b64_digit n \<in> set ([65..<91] @ [97..<123] @ [48..<58] @ [43, 47, 61])"
    using assms by (auto simp add: b64_digit_def simp del: upt_rec_numeral)
  then show ?thesis unfolding alphabet_codes by (simp only: set_map image_eqI)
qed

lemma pad_in_alphabet:
  "(of_nat 61 :: 16 word) \<in>
     set (js ''ABCDEFGHIJKLMNOPQRSTUVWXYZabcdefghijklmnopqrstuvwxyz0123456789+/='')"
  unfolding alphabet_codes by (simp del: upt_rec_numeral)

lemma base64_chars_alphabet:
  "\<forall>x\<in>set bs. x < 256 \<Longrightarrow>
   \<forall>c\<in>set (base64_chars bs). (of_nat c :: 16 word) \<in>
     set (js ''ABCDEFGHIJKLMNOPQRSTUVWXYZabcdefghijklmnopqrstuvwxyz0123456789+/='')"
proof (induction bs rule: base64_chars.induct)
  case (1 a b c r)
  have a: "a < 256" and b: "b < 256" and c: "c < 256" using 1(2) by auto
  have s: "a div 4 < 64" "(a mod 4) * 16 + b div 16 < 64" "(b mod 16) * 4 + c div 64 < 64" "c mod 64 < 64"
    using a b c by simp_all
  show ?case using 1 s[THEN digit_in_alphabet] by simp
next
  case (2 a b)
  then have a: "a < 256" and b: "b < 256" by auto
  have s: "a div 4 < 64" "(a mod 4) * 16 + b div 16 < 64" "(b mod 16) * 4 < 64"
    using a b by simp_all
  show ?case using s[THEN digit_in_alphabet] pad_in_alphabet by simp
next
  case (3 a)
  then have a: "a < 256" by auto
  have s: "a div 4 < 64" "(a mod 4) * 16 < 64" using a by simp_all
  show ?case using s[THEN digit_in_alphabet] pad_in_alphabet by simp
next
  case 4
  show ?case by simp
qed

lemma base64_encode_is_text: "is_base64_text (base64_encode b)"
proof -
  have r: "\<forall>x\<in>set (map unat b). x < 256" by (simp add: unat_byte_less)
  have "length (base64_encode b) mod 4 = 0"
    by (simp add: base64_encode_def length_base64_chars)
  moreover have "\<forall>c\<in>set (base64_encode b). c \<in>
     set (js ''ABCDEFGHIJKLMNOPQRSTUVWXYZabcdefghijklmnopqrstuvwxyz0123456789+/='')"
    using base64_chars_alphabet[OF r] unfolding base64_encode_def by (simp only: set_map) blast
  ultimately show ?thesis unfolding is_base64_text_def list_all_iff by blast
qed

section \<open>Round trip\<close>

text \<open>
  Claim C1, as amended. For every master key whose buffer has exactly 32 bytes and every
  non-empty plaintext without an unpaired surrogate, \<open>decrypt(encrypt(p, k), k)\<close>
  returns \<open>p\<close>, for primitives that meet the contract.
\<close>

theorem encrypt_decrypt_roundtrip:
  assumes "crypto_contract cr" "length (key_buffer k) = 32" "p \<noteq> []" "well_formed p"
  shows "decrypt_encrypt cr p k e = Inr p"
  using decrypt_encrypt_eq[OF assms(1,2,3)] utf8_decode_encode[OF assms(4)] by simp

text \<open>The theorem at the key of the specification's end-to-end scenario.\<close>

lemma well_formed_api_key: "well_formed (js ''AIzaSyAAAAAAAAAAAAAAAAAAAAAAAAAAA'')"
  by (simp add: well_formed_def js_def is_high_surrogate_def is_low_surrogate_def)

theorem encrypt_decrypt_roundtrip_witness:
  "crypto_contract model_crypto \<and> length (key_buffer zero_key) = 32 \<and>
   js ''AIzaSyAAAAAAAAAAAAAAAAAAAAAAAAAAA'' \<noteq> [] \<and>
   well_formed (js ''AIzaSyAAAAAAAAAAAAAAAAAAAAAAAAAAA'') \<and>
   decrypt_encrypt model_crypto (js ''AIzaSyAAAAAAAAAAAAAAAAAAAAAAAAAAA'') zero_key zero_tape =
     Inr (js ''AIzaSyAAAAAAAAAAAAAAAAAAAAAAAAAAA'')"
proof -
  have n: "js ''AIzaSyAAAAAAAAAAAAAAAAAAAAAAAAAAA'' \<noteq> []" by (simp add: js_def)
  show ?thesis
    using encrypt_decrypt_roundtrip[OF model_crypto_contract zero_key_length n well_formed_api_key]
      model_crypto_contract zero_key_length n well_formed_api_key
    by simp
qed

text \<open>
  Claim C1 as stated fails on a plaintext that holds an unpaired surrogate: \<open>encrypt\<close>
  writes it as U+FFFD, and \<open>decrypt\<close> returns U+FFFD.
\<close>

lemma utf8_unpaired_surrogate: "utf8_decode (utf8_encode [0xD800]) = [0xFFFD]"
  by (simp add: utf8_decode_def utf8_encode_def is_high_surrogate_def utf8_3_def
      utf8_dec.simps second_ok_def is_cont_def)

theorem roundtrip_unpaired_surrogate_counterexample:
  "crypto_contract model_crypto \<and> length (key_buffer zero_key) = 32 \<and>
   [0xD800] \<noteq> ([] :: jsstring) \<and>
   decrypt_encrypt model_crypto [0xD800] zero_key zero_tape = Inr [0xFFFD] \<and>
   decrypt_encrypt model_crypto [0xD800] zero_key zero_tape \<noteq> Inr [0xD800]"
proof -
  have "decrypt_encrypt model_crypto [0xD800] zero_key zero_tape = Inr [0xFFFD]"
    using decrypt_encrypt_eq[OF model_crypto_contract zero_key_length, of "[0xD800]" zero_tape]
    by (simp add: utf8_unpaired_surrogate)
  then show ?thesis using model_crypto_contract zero_key_length by simp
qed

section \<open>Wire format\<close>

text \<open>
  Claim C7. For every master key whose buffer has 32 bytes and every non-empty plaintext,
  the string \<open>encrypt\<close> returns is base64 text that decodes to the salt (32 bytes),
  the IV (16 bytes), the tag (16 bytes) and the ciphertext, in this order; and \<open>decrypt\<close>
  hands to the cipher the bytes at exactly these offsets of the decoded blob.
\<close>

theorem wire_format:
  assumes "pbkdf2_length cr" "gcm_lengths cr" "length (key_buffer k) = 32" "p \<noteq> []"
  shows "\<exists>blob e'. encrypt cr p k e = (Inr blob, e') \<and> is_base64_text blob \<and>
           base64_decode blob =
             drawn_salt e @ drawn_iv e @ snd (sealed cr p k e) @ fst (sealed cr p k e) \<and>
           length (drawn_salt e) = 32 \<and> length (drawn_iv e) = 16 \<and>
           length (snd (sealed cr p k e)) = 16 \<and>
           take 32 (base64_decode blob) = drawn_salt e \<and>
           take 16 (drop 32 (base64_decode blob)) = drawn_iv e \<and>
           take 16 (drop 48 (base64_decode blob)) = snd (sealed cr p k e) \<and>
           drop 64 (base64_decode blob) = fst (sealed cr p k e) \<and>
           (\<forall>c e2. c \<noteq> [] \<and> 64 \<le> length (base64_decode c) \<longrightarrow>
              decrypt cr c k e2 =
                (case gcm_open cr (derived_key cr k (take 32 (base64_decode c)))
                        (take 16 (drop 32 (base64_decode c)))
                        (take 16 (drop 48 (base64_decode c)))
                        (drop 64 (base64_decode c)) of
                   None \<Rightarrow> Inl (DecryptionFailed auth_failed_message)
                 | Some pt \<Rightarrow> Inr (utf8_decode pt),
                 e2))"
proof -
  let ?s = "drawn_salt e" and ?i = "drawn_iv e"
  let ?t = "snd (sealed cr p k e)" and ?c = "fst (sealed cr p k e)"
  let ?blob = "base64_encode (?s @ ?i @ ?t @ ?c)"
  have t: "length ?t = 16" by (rule sealed_shape(2)[OF assms(1,2)])
  have d: "base64_decode ?blob = ?s @ ?i @ ?t @ ?c" by (rule base64_decode_encode)
  have sl: "take 32 (?s @ ?i @ ?t @ ?c) = ?s" "take 16 (drop 32 (?s @ ?i @ ?t @ ?c)) = ?i"
      "take 16 (drop 48 (?s @ ?i @ ?t @ ?c)) = ?t" "drop 64 (?s @ ?i @ ?t @ ?c) = ?c"
    using slices[OF _ _ t, of ?s ?i ?c] by simp_all
  have dec: "\<forall>c e2. c \<noteq> [] \<and> 64 \<le> length (base64_decode c) \<longrightarrow>
              decrypt cr c k e2 =
                (case gcm_open cr (derived_key cr k (take 32 (base64_decode c)))
                        (take 16 (drop 32 (base64_decode c)))
                        (take 16 (drop 48 (base64_decode c)))
                        (drop 64 (base64_decode c)) of
                   None \<Rightarrow> Inl (DecryptionFailed auth_failed_message)
                 | Some pt \<Rightarrow> Inr (utf8_decode pt),
                 e2)"
    using decrypt_eq[OF _ assms(3)] by blast
  have enc: "encrypt cr p k e = (Inr ?blob, \<lambda>i. e (48 + i))"
    by (rule encrypt_eq[OF assms(4,3)])
  show ?thesis
    apply (rule exI[of _ ?blob])
    apply (rule exI[of _ "\<lambda>i. e (48 + i)"])
    apply (intro conjI)
              apply (rule enc)
             apply (rule base64_encode_is_text)
            apply (rule d)
           apply simp
          apply simp
         apply (rule t)
        apply (simp only: d sl)
       apply (simp only: d sl)
      apply (simp only: d sl)
     apply (simp only: d sl)
    apply (rule dec)
    done
qed

theorem wire_format_witness:
  "pbkdf2_length model_crypto \<and> gcm_lengths model_crypto \<and>
   length (key_buffer zero_key) = 32 \<and> js ''AI'' \<noteq> [] \<and>
   (\<exists>blob e'. encrypt model_crypto (js ''AI'') zero_key zero_tape = (Inr blob, e') \<and>
      is_base64_text blob \<and> 64 \<le> length (base64_decode blob) \<and> blob \<noteq> [] \<and>
      take 32 (base64_decode blob) = drawn_salt zero_tape \<and>
      decrypt model_crypto blob zero_key e' =
        (case gcm_open model_crypto (derived_key model_crypto zero_key (take 32 (base64_decode blob)))
                (take 16 (drop 32 (base64_decode blob)))
                (take 16 (drop 48 (base64_decode blob)))
                (drop 64 (base64_decode blob)) of
           None \<Rightarrow> Inl (DecryptionFailed auth_failed_message)
         | Some pt \<Rightarrow> Inr (utf8_decode pt),
         e'))"
proof -
  have n: "js ''AI'' \<noteq> []" by (simp add: js_def)
  obtain blob e' where b: "encrypt model_crypto (js ''AI'') zero_key zero_tape = (Inr blob, e')"
    and t: "is_base64_text blob"
    and d: "base64_decode blob = drawn_salt zero_tape @ drawn_iv zero_tape @
              snd (sealed model_crypto (js ''AI'') zero_key zero_tape) @
              fst (sealed model_crypto (js ''AI'') zero_key zero_tape)"
    and l: "length (snd (sealed model_crypto (js ''AI'') zero_key zero_tape)) = 16"
    and s: "take 32 (base64_decode blob) = drawn_salt zero_tape"
    and dec: "\<forall>c e2. c \<noteq> [] \<and> 64 \<le> length (base64_decode c) \<longrightarrow>
              decrypt model_crypto c zero_key e2 =
                (case gcm_open model_crypto (derived_key model_crypto zero_key (take 32 (base64_decode c)))
                        (take 16 (drop 32 (base64_decode c)))
                        (take 16 (drop 48 (base64_decode c)))
                        (drop 64 (base64_decode c)) of
                   None \<Rightarrow> Inl (DecryptionFailed auth_failed_message)
                 | Some pt \<Rightarrow> Inr (utf8_decode pt),
                 e2)"
    using wire_format[OF model_crypto_lengths zero_key_length n, of zero_tape] by blast
  have len: "64 \<le> length (base64_decode blob)" unfolding d using l by simp
  have ne: "blob \<noteq> []" using len by (auto simp add: base64_decode_def)
  show ?thesis
    using model_crypto_lengths zero_key_length n b t len ne s dec[rule_format, of blob e']
    by blast
qed

section \<open>Length of the blob\<close>

text \<open>
  Claim C10. For every master key whose buffer has 32 bytes and every non-empty plaintext
  \<open>p\<close>, the blob of \<open>encrypt\<close> decodes to exactly 64 bytes more than the UTF-8
  encoding of \<open>p\<close> has, so the blob gives away the byte length of the secret.
\<close>

theorem blob_length:
  assumes "pbkdf2_length cr" "gcm_lengths cr" "length (key_buffer k) = 32" "p \<noteq> []"
  shows "\<exists>blob e'. encrypt cr p k e = (Inr blob, e') \<and>
           length (base64_decode blob) = 64 + length (utf8_encode p) \<and>
           length blob = 4 * ((64 + length (utf8_encode p) + 2) div 3)"
proof -
  let ?comb = "drawn_salt e @ drawn_iv e @ snd (sealed cr p k e) @ fst (sealed cr p k e)"
  have l: "length ?comb = 64 + length (utf8_encode p)"
    using sealed_shape[OF assms(1,2), of p k e] by simp
  have "length (base64_encode ?comb) = 4 * ((length ?comb + 2) div 3)"
    by (simp add: base64_encode_def length_base64_chars)
  then show ?thesis
    using encrypt_eq[OF assms(4,3), of cr e] base64_decode_encode[of ?comb] l by simp
qed

theorem blob_length_witness:
  "pbkdf2_length model_crypto \<and> gcm_lengths model_crypto \<and>
   length (key_buffer zero_key) = 32 \<and> js ''AI'' \<noteq> [] \<and>
   (\<exists>blob e'. encrypt model_crypto (js ''AI'') zero_key zero_tape = (Inr blob, e') \<and>
      length (base64_decode blob) = 66 \<and> length blob = 88)"
proof -
  have n: "js ''AI'' \<noteq> []" by (simp add: js_def)
  have u: "length (utf8_encode (js ''AI'')) = 2"
    by (simp add: utf8_encode_def js_def utf8_1_def)
  show ?thesis
    using blob_length[OF model_crypto_lengths zero_key_length n, of zero_tape]
      model_crypto_lengths zero_key_length n
    by (simp add: u)
qed

section \<open>Properties of \<open>registerKey\<close>\<close>

lemma encrypt_failure_entropy: "encrypt cr p k e = (Inl err, e') \<Longrightarrow> e' = e"
proof (cases "p \<noteq> [] \<and> length (key_buffer k) = 32")
  case True
  then show "encrypt cr p k e = (Inl err, e') \<Longrightarrow> e' = e" by (simp add: encrypt_eq)
next
  case False
  then show "encrypt cr p k e = (Inl err, e') \<Longrightarrow> e' = e"
    by (auto simp add: encrypt_def validateMasterKey_bad split: if_splits option.splits)
qed

lemma gemini_key_regex_nonempty: "gemini_key_regex a \<Longrightarrow> a \<noteq> []"
  by (cases a) simp_all

lemma key_buffer_KeyBuffer [simp]: "key_buffer (KeyBuffer b) = b"
  by (simp add: key_buffer_def)

lemma ensureValid_ok: "ensureValid b = None \<longleftrightarrow> length (masterKey b) = 32"
  by (simp add: ensureValid_def)

lemma world_entropy_same [simp]: "w\<lparr>entropy := entropy w\<rparr> = w"
  by simp

lemma registerKey_rejects:
  assumes "length (masterKey b) = 32"
    and "falsy (reg_userId inp) \<or> falsy (reg_provider inp) \<or> falsy (reg_apiKey inp) \<or>
         field (reg_provider inp) \<noteq> gemini \<or> \<not> gemini_key_regex (field (reg_apiKey inp))"
  shows "registerKey cr b inp w =
           (Inl (if falsy (reg_userId inp) then UserIdRequired
                 else if falsy (reg_provider inp) then ProviderRequired
                 else if falsy (reg_apiKey inp) then ApiKeyRequired
                 else if field (reg_provider inp) \<noteq> gemini then UnsupportedProvider
                 else InvalidApiKey), w)"
  using assms by (auto simp add: registerKey_def ensureValid_def)

lemma registerKey_accepts:
  assumes "length (masterKey b) = 32"
    and "\<not> falsy (reg_userId inp)" "\<not> falsy (reg_provider inp)" "\<not> falsy (reg_apiKey inp)"
    and "field (reg_provider inp) = gemini" "gemini_key_regex (field (reg_apiKey inp))"
  shows "\<exists>blob. encrypt cr (field (reg_apiKey inp)) (KeyBuffer (masterKey b)) (entropy w) =
                  (Inr blob, \<lambda>i. entropy w (48 + i)) \<and>
           registerKey cr b inp w =
             (Inr (),
              w\<lparr>entropy := \<lambda>i. entropy w (48 + i),
                store := (store w)(store_key (field (reg_userId inp)) gemini \<mapsto>
                  \<lparr>userId = field (reg_userId inp), provider = gemini,
                   encryptedKey = blob, createdAt = clock w\<rparr>)\<rparr>)"
proof -
  have n: "field (reg_apiKey inp) \<noteq> []" using assms(6) by (rule gemini_key_regex_nonempty)
  have k: "length (key_buffer (KeyBuffer (masterKey b))) = 32" using assms(1) by simp
  show ?thesis
    using assms encrypt_eq[OF n k, of cr "entropy w"]
    by (simp add: registerKey_def ensureValid_def MemoryStore_set_def)
qed

lemma registerKey_success_inv:
  assumes "registerKey cr b inp w = (Inr (), w')"
  shows "length (masterKey b) = 32 \<and> \<not> falsy (reg_userId inp) \<and> \<not> falsy (reg_provider inp) \<and>
         \<not> falsy (reg_apiKey inp) \<and> field (reg_provider inp) = gemini \<and>
         gemini_key_regex (field (reg_apiKey inp))"
  using assms
  by (auto simp add: registerKey_def ensureValid_def split: if_splits option.splits)

lemma registerKey_failure_world:
  assumes "registerKey cr b inp w = (Inl err, w')"
  shows "w' = w"
proof (cases "length (masterKey b) = 32")
  case False
  then show ?thesis using assms by (simp add: registerKey_def ensureValid_def)
next
  case True
  show ?thesis
  proof (cases "falsy (reg_userId inp) \<or> falsy (reg_provider inp) \<or> falsy (reg_apiKey inp) \<or>
         field (reg_provider inp) \<noteq> gemini \<or> \<not> gemini_key_regex (field (reg_apiKey inp))")
    case r: True
    show ?thesis using assms unfolding registerKey_rejects[OF True r] by simp
  next
    case False
    then obtain blob st where "registerKey cr b inp w = (Inr (), st)"
      using registerKey_accepts[OF True, of inp cr w] by blast
    then show ?thesis using assms by simp
  qed
qed

section \<open>Failed validation\<close>

text \<open>
  Claim C4. Whenever \<open>registerKey\<close> fails validation (a missing \<open>userId\<close>,
  \<open>provider\<close> or \<open>apiKey\<close>, a provider other than \<open>gemini\<close>, or a malformed
  \<open>apiKey\<close>) it throws a validation error whatever the cipher is, and leaves the world
  as it was: no random byte is drawn and the store is unchanged, so \<open>hasKey\<close> answers
  as before, in particular \<open>false\<close> where there was no record.
\<close>

theorem failed_validation_has_no_effect:
  assumes "length (masterKey b) = 32"
    and "falsy (reg_userId inp) \<or> falsy (reg_provider inp) \<or> falsy (reg_apiKey inp) \<or>
         field (reg_provider inp) \<noteq> gemini \<or> \<not> gemini_key_regex (field (reg_apiKey inp))"
  shows "(\<exists>err. is_validation_error err \<and> (\<forall>cr. registerKey cr b inp w = (Inl err, w))) \<and>
         (\<forall>cr. snd (registerKey cr b inp w) = w) \<and>
         (\<forall>cr u p. hasKey b u p (snd (registerKey cr b inp w)) = hasKey b u p w) \<and>
         (\<forall>cr u p. MemoryStore_get (store w) u p = None
              \<longrightarrow> hasKey b u p (snd (registerKey cr b inp w)) = Inr False)"
proof -
  let ?err = "if falsy (reg_userId inp) then UserIdRequired
                 else if falsy (reg_provider inp) then ProviderRequired
                 else if falsy (reg_apiKey inp) then ApiKeyRequired
                 else if field (reg_provider inp) \<noteq> gemini then UnsupportedProvider
                 else InvalidApiKey"
  have r: "registerKey cr b inp w = (Inl ?err, w)" for cr
    by (rule registerKey_rejects[OF assms])
  have v: "is_validation_error ?err" by (simp add: is_validation_error_def)
  have h: "MemoryStore_get (store w) u p = None \<Longrightarrow> hasKey b u p w = Inr False" for u p
    using assms(1) by (simp add: hasKey_def ensureValid_def MemoryStore_has_def MemoryStore_get_def)
  have 1: "\<exists>err. is_validation_error err \<and> (\<forall>cr. registerKey cr b inp w = (Inl err, w))"
    using v r by blast
  have 2: "\<forall>cr. snd (registerKey cr b inp w) = w" by (simp only: r snd_conv) simp
  show ?thesis using 1 2 h by simp
qed

theorem failed_validation_has_no_effect_witness:
  "length (masterKey zero_vault) = 32 \<and>
   \<not> gemini_key_regex (field (reg_apiKey bad_input)) \<and>
   (\<exists>err. is_validation_error err \<and>
      registerKey model_crypto zero_vault bad_input empty_world = (Inl err, empty_world)) \<and>
   hasKey zero_vault (js ''u1'') gemini
     (snd (registerKey model_crypto zero_vault bad_input empty_world)) = Inr False"
proof -
  have l: "length (masterKey zero_vault) = 32" by (simp add: zero_vault_def)
  have b: "\<not> gemini_key_regex (field (reg_apiKey bad_input))"
    by (simp add: bad_input_def field_def js_def)
  have d: "falsy (reg_userId bad_input) \<or> falsy (reg_provider bad_input) \<or>
         falsy (reg_apiKey bad_input) \<or> field (reg_provider bad_input) \<noteq> gemini \<or>
         \<not> gemini_key_regex (field (reg_apiKey bad_input))"
    using b by simp
  have g: "MemoryStore_get (store empty_world) (js ''u1'') gemini = None"
    by (simp add: MemoryStore_get_def empty_world_def)
  note t = failed_validation_has_no_effect[OF l d, of empty_world]
  have 1: "\<exists>err. is_validation_error err \<and>
      registerKey model_crypto zero_vault bad_input empty_world = (Inl err, empty_world)"
    using t[THEN conjunct1] by blast
  have 2: "hasKey zero_vault (js ''u1'') gemini
     (snd (registerKey model_crypto zero_vault bad_input empty_world)) = Inr False"
    using t[THEN conjunct2, THEN conjunct2, THEN conjunct2, rule_format, OF g] .
  show ?thesis using l b 1 2 by blast
qed

section \<open>Properties of the store\<close>

lemma store_key_same_provider: "store_key u p = store_key u' p \<longleftrightarrow> u = u'"
  by (simp add: store_key_def)

lemma first_separator_split:
  "c \<notin> set xs \<Longrightarrow> c \<notin> set xs' \<Longrightarrow> xs @ c # ys = xs' @ c # ys' \<Longrightarrow>
   xs = xs' \<and> ys = ys'"
proof (induction xs arbitrary: xs')
  case Nil
  then show ?case by (cases xs') simp_all
next
  case (Cons x xs)
  show ?case
  proof (cases xs')
    case Nil
    then show ?thesis using Cons.prems by simp
  next
    case (Cons x' zs)
    then have "x = x'" "xs @ c # ys = zs @ c # ys'" "c \<notin> set zs" "c \<notin> set xs"
      using Cons.prems by simp_all
    then show ?thesis using Cons.IH[of zs] Cons by simp
  qed
qed

lemma colon_split:
  assumes "a @ c # p = a' @ c # p'" "c \<notin> set p" "c \<notin> set p'"
  shows "a = a' \<and> p = p'"
proof -
  have "rev (a @ c # p) = rev (a' @ c # p')" using assms(1) by (rule arg_cong)
  then have e: "rev p @ c # rev a = rev p' @ c # rev a'" by simp
  have n: "c \<notin> set (rev p)" "c \<notin> set (rev p')" using assms(2,3) by simp_all
  have "rev p = rev p' \<and> rev a = rev a'"
    by (rule first_separator_split[OF n e])
  then show ?thesis by simp
qed

lemma store_key_inj:
  assumes "store_key u p = store_key u' p'" "0x3A \<notin> set p" "0x3A \<notin> set p'"
  shows "u = u' \<and> p = p'"
proof -
  have "u @ 0x3A # p = u' @ 0x3A # p'"
    using assms(1) by (simp add: store_key_def js_def)
  then show ?thesis using assms(2,3) by (rule colon_split)
qed

lemma gemini_no_colon: "0x3A \<notin> set gemini"
  by (simp add: gemini_def js_def)

section \<open>One record per identity key\<close>

lemma registerKey_success_store:
  assumes "registerKey cr b inp w = (Inr (), w')"
  shows "\<exists>blob. fst (encrypt cr (field (reg_apiKey inp)) (KeyBuffer (masterKey b)) (entropy w)) =
                  Inr blob \<and>
           store w' = (store w)(store_key (field (reg_userId inp)) gemini \<mapsto>
                  \<lparr>userId = field (reg_userId inp), provider = gemini,
                   encryptedKey = blob, createdAt = clock w\<rparr>) \<and>
           entropy w' = (\<lambda>i. entropy w (48 + i)) \<and> clock w' = clock w"
proof -
  note i = registerKey_success_inv[OF assms]
  obtain blob where e: "encrypt cr (field (reg_apiKey inp)) (KeyBuffer (masterKey b)) (entropy w) =
                  (Inr blob, \<lambda>i. entropy w (48 + i))"
    and r: "registerKey cr b inp w =
             (Inr (),
              w\<lparr>entropy := \<lambda>i. entropy w (48 + i),
                store := (store w)(store_key (field (reg_userId inp)) gemini \<mapsto>
                  \<lparr>userId = field (reg_userId inp), provider = gemini,
                   encryptedKey = blob, createdAt = clock w\<rparr>)\<rparr>)"
    using registerKey_accepts[of b inp cr w] i by blast
  have "w' = w\<lparr>entropy := \<lambda>i. entropy w (48 + i),
                store := (store w)(store_key (field (reg_userId inp)) gemini \<mapsto>
                  \<lparr>userId = field (reg_userId inp), provider = gemini,
                   encryptedKey = blob, createdAt = clock w\<rparr>)\<rparr>"
    using assms r by simp
  then show ?thesis using e by auto
qed

text \<open>
  Claim C5. The store holds at most one record per identity key. A successful
  \<open>registerKey\<close> for \<open>(userId, gemini)\<close> puts the new record in the place of any record
  of that identity key, adds no other key, and leaves the record of every other identity
  key as it was; \<open>hasKey\<close> of another user is unchanged. After a second registration for
  the same identity key the store is what the second registration alone would have left:
  one record for the key, holding the second ciphertext.
\<close>

theorem register_replaces_own_record_only:
  assumes "registerKey cr b inp w = (Inr (), w1)"
  shows "\<exists>blob. fst (encrypt cr (field (reg_apiKey inp)) (KeyBuffer (masterKey b)) (entropy w)) =
                  Inr blob \<and>
           field (reg_provider inp) = gemini \<and>
           MemoryStore_get (store w1) (field (reg_userId inp)) gemini =
             Some \<lparr>userId = field (reg_userId inp), provider = gemini,
                   encryptedKey = blob, createdAt = clock w\<rparr> \<and>
           dom (store w1) = insert (store_key (field (reg_userId inp)) gemini) (dom (store w)) \<and>
           (\<forall>u p. 0x3A \<notin> set p \<longrightarrow> (u, p) \<noteq> (field (reg_userId inp), gemini) \<longrightarrow>
              MemoryStore_get (store w1) u p = MemoryStore_get (store w) u p) \<and>
           (\<forall>u. u \<noteq> field (reg_userId inp) \<longrightarrow> hasKey b u gemini w1 = hasKey b u gemini w) \<and>
           (\<forall>inp2 w2. registerKey cr b inp2 w1 = (Inr (), w2) \<longrightarrow>
              field (reg_userId inp2) = field (reg_userId inp) \<longrightarrow>
              (\<exists>blob2. fst (encrypt cr (field (reg_apiKey inp2)) (KeyBuffer (masterKey b))
                              (entropy w1)) = Inr blob2 \<and>
                 store w2 = (store w)(store_key (field (reg_userId inp)) gemini \<mapsto>
                    \<lparr>userId = field (reg_userId inp), provider = gemini,
                     encryptedKey = blob2, createdAt = clock w\<rparr>) \<and>
                 dom (store w2) = dom (store w1) \<and>
                 (store w = Map.empty \<longrightarrow>
                    dom (store w2) = {store_key (field (reg_userId inp)) gemini})))"
proof -
  let ?uid = "field (reg_userId inp)"
  obtain blob where e: "fst (encrypt cr (field (reg_apiKey inp)) (KeyBuffer (masterKey b))
                             (entropy w)) = Inr blob"
    and s: "store w1 = (store w)(store_key ?uid gemini \<mapsto>
                  \<lparr>userId = ?uid, provider = gemini, encryptedKey = blob, createdAt = clock w\<rparr>)"
    and c: "clock w1 = clock w"
    using registerKey_success_store[OF assms] by blast
  have p: "field (reg_provider inp) = gemini" using registerKey_success_inv[OF assms] by simp
  have g: "MemoryStore_get (store w1) ?uid gemini =
             Some \<lparr>userId = ?uid, provider = gemini, encryptedKey = blob, createdAt = clock w\<rparr>"
    by (simp add: MemoryStore_get_def s)
  have d: "dom (store w1) = insert (store_key ?uid gemini) (dom (store w))"
    by (simp add: s)
  have o: "MemoryStore_get (store w1) u p = MemoryStore_get (store w) u p"
    if "0x3A \<notin> set p" "(u, p) \<noteq> (?uid, gemini)" for u p
  proof -
    have "store_key u p \<noteq> store_key ?uid gemini"
      using store_key_inj[OF _ that(1) gemini_no_colon] that(2) by blast
    then show ?thesis by (simp add: MemoryStore_get_def s)
  qed
  have h: "hasKey b u gemini w1 = hasKey b u gemini w" if "u \<noteq> ?uid" for u
  proof -
    have "MemoryStore_has (store w1) u gemini = MemoryStore_has (store w) u gemini"
      using that by (simp add: MemoryStore_has_def s store_key_same_provider)
    then show ?thesis by (simp only: hasKey_def)
  qed
  have t: "\<exists>blob2. fst (encrypt cr (field (reg_apiKey inp2)) (KeyBuffer (masterKey b))
                              (entropy w1)) = Inr blob2 \<and>
                 store w2 = (store w)(store_key ?uid gemini \<mapsto>
                    \<lparr>userId = ?uid, provider = gemini,
                     encryptedKey = blob2, createdAt = clock w\<rparr>) \<and>
                 dom (store w2) = dom (store w1) \<and>
                 (store w = Map.empty \<longrightarrow> dom (store w2) = {store_key ?uid gemini})"
    if r2: "registerKey cr b inp2 w1 = (Inr (), w2)" and u2: "field (reg_userId inp2) = ?uid"
    for inp2 w2
  proof -
    obtain blob2 where e2: "fst (encrypt cr (field (reg_apiKey inp2)) (KeyBuffer (masterKey b))
                             (entropy w1)) = Inr blob2"
      and s2: "store w2 = (store w1)(store_key ?uid gemini \<mapsto>
                  \<lparr>userId = ?uid, provider = gemini, encryptedKey = blob2, createdAt = clock w1\<rparr>)"
      using registerKey_success_store[OF r2] unfolding u2 by blast
    have s2': "store w2 = (store w)(store_key ?uid gemini \<mapsto>
                  \<lparr>userId = ?uid, provider = gemini, encryptedKey = blob2, createdAt = clock w\<rparr>)"
      unfolding s2 s c by simp
    have d2: "dom (store w2) = dom (store w1)" unfolding s2 s by auto
    have "store w = Map.empty \<Longrightarrow> dom (store w2) = {store_key ?uid gemini}"
      unfolding s2' by simp
    then show ?thesis using e2 s2' d2 by blast
  qed
  show ?thesis
    apply (rule exI[of _ blob])
    apply (intro conjI allI impI)
          apply (rule e)
         apply (rule p)
        apply (rule g)
       apply (rule d)
      apply (erule (1) o)
     apply (erule h)
    apply (erule (1) t)
    done
qed

lemma good_input_facts:
  "\<not> falsy (reg_userId good_input)" "\<not> falsy (reg_provider good_input)"
  "\<not> falsy (reg_apiKey good_input)" "field (reg_provider good_input) = gemini"
  "field (reg_userId good_input) = js ''u1''"
  "field (reg_apiKey good_input) = js ''AIzaSyAAAAAAAAAAAAAAAAAAAAAAAAAAA''"
  by (simp_all add: good_input_def falsy_def field_def js_def gemini_def)

lemma good_key_matches: "gemini_key_regex (js ''AIzaSyAAAAAAAAAAAAAAAAAAAAAAAAAAA'')"
  by (simp add: js_def key_char_class_def)

lemma zero_vault_length: "length (masterKey zero_vault) = 32"
  by (simp add: zero_vault_def)

lemma registerKey_good_input:
  "\<exists>w1. registerKey model_crypto zero_vault good_input w = (Inr (), w1)"
  using registerKey_accepts[OF zero_vault_length good_input_facts(1,2,3,4), of model_crypto w]
    good_key_matches
  by (auto simp add: good_input_facts(6))

theorem register_replaces_own_record_only_witness:
  "registerKey model_crypto zero_vault good_input empty_world =
     (Inr (), snd (registerKey model_crypto zero_vault good_input empty_world)) \<and>
   dom (store (snd (registerKey model_crypto zero_vault good_input empty_world))) =
     {store_key (js ''u1'') gemini} \<and>
   hasKey zero_vault (js ''u2'') gemini
     (snd (registerKey model_crypto zero_vault good_input empty_world)) = Inr False"
proof -
  let ?w1 = "snd (registerKey model_crypto zero_vault good_input empty_world)"
  have r: "registerKey model_crypto zero_vault good_input empty_world = (Inr (), ?w1)"
    using registerKey_good_input[of empty_world] by auto
  have n: "js ''u2'' \<noteq> field (reg_userId good_input)"
    by (simp add: good_input_facts(5) js_def)
  have h0: "hasKey zero_vault (js ''u2'') gemini empty_world = Inr False"
    by (simp add: hasKey_def ensureValid_def zero_vault_length MemoryStore_has_def empty_world_def)
  obtain blob where
    d: "dom (store ?w1) = insert (store_key (field (reg_userId good_input)) gemini)
          (dom (store empty_world))"
    and h: "\<forall>u. u \<noteq> field (reg_userId good_input) \<longrightarrow>
              hasKey zero_vault u gemini ?w1 = hasKey zero_vault u gemini empty_world"
    using register_replaces_own_record_only[OF r] by blast
  have "dom (store ?w1) = {store_key (js ''u1'') gemini}"
    using d by (simp add: good_input_facts(5) empty_world_def)
  moreover have "hasKey zero_vault (js ''u2'') gemini ?w1 = Inr False"
    using h n h0 by simp
  ultimately show ?thesis using r by simp
qed

section \<open>Fresh salt and IV\<close>

lemma base64_encode_inj: "base64_encode a = base64_encode b \<Longrightarrow> a = b"
  using base64_decode_encode by metis

lemma blob_determines_draws:
  assumes "p \<noteq> []" "length (key_buffer k) = 32" "p' \<noteq> []" "length (key_buffer k') = 32"
    and "fst (encrypt cr p k e1) = fst (encrypt cr' p' k' e2)"
  shows "drawn_salt e1 = drawn_salt e2 \<and> drawn_iv e1 = drawn_iv e2"
proof -
  have "drawn_salt e1 @ drawn_iv e1 @ snd (sealed cr p k e1) @ fst (sealed cr p k e1) =
        drawn_salt e2 @ drawn_iv e2 @ snd (sealed cr' p' k' e2) @ fst (sealed cr' p' k' e2)"
    using assms(5) unfolding encrypt_eq[OF assms(1,2)] encrypt_eq[OF assms(3,4)]
    by (simp add: base64_encode_inj)
  then show ?thesis by simp
qed

lemma next_draws:
  "drawn_salt (\<lambda>i. e (48 + i)) = map e [48..<80]" "drawn_iv (\<lambda>i. e (48 + i)) = map e [80..<96]"
proof -
  have "map (\<lambda>i. e (48 + i)) [0..<32] = map e [48..<48 + 32]" by (rule map_shift_upt)
  then show "drawn_salt (\<lambda>i. e (48 + i)) = map e [48..<80]" by (simp add: drawn_salt_def)
  have "map (\<lambda>i. e (48 + (32 + i))) [0..<16] = map (\<lambda>i. e (80 + i)) [0..<16]"
    by (simp add: add.assoc[symmetric])
  also have "\<dots> = map e [80..<80 + 16]" by (rule map_shift_upt)
  finally have "map (\<lambda>i. e (48 + (32 + i))) [0..<16] = map e [80..<96]" by simp
  moreover have "map (\<lambda>i. e (48 + i)) [32..<48] = map (\<lambda>i. e (48 + (32 + i))) [0..<16]"
    using map_shift_upt[of "\<lambda>i. e (48 + i)" 32 16] by simp
  ultimately show "drawn_iv (\<lambda>i. e (48 + i)) = map e [80..<96]" by (simp add: drawn_iv_def)
qed

text \<open>
  Claim C8. A call of \<open>encrypt\<close> draws a new 32-byte salt and a new 16-byte IV from the
  random source: it reads the next 48 bytes of the tape and leaves the tape behind them
  to the next call. Two calls for the same plaintext and master key return different
  blobs whenever their draws differ in a byte of the salt or of the IV; so
  re-registering the same secret stores a ciphertext different from the one before.
\<close>

theorem fresh_draws_give_distinct_blobs:
  assumes "p \<noteq> []" "length (key_buffer k) = 32"
    and "encrypt cr p k e = (r1, e1)" "encrypt cr p k e1 = (r2, e2)"
  shows "(\<exists>b1 b2. r1 = Inr b1 \<and> r2 = Inr b2 \<and>
            take 32 (base64_decode b1) = map e [0..<32] \<and>
            take 16 (drop 32 (base64_decode b1)) = map e [32..<48] \<and>
            take 32 (base64_decode b2) = map e [48..<80] \<and>
            take 16 (drop 32 (base64_decode b2)) = map e [80..<96] \<and>
            (map e [0..<32] \<noteq> map e [48..<80] \<or> map e [32..<48] \<noteq> map e [80..<96]
               \<longrightarrow> b1 \<noteq> b2)) \<and>
         (\<forall>b inp w w1 w2.
            registerKey cr b inp w = (Inr (), w1) \<longrightarrow> registerKey cr b inp w1 = (Inr (), w2) \<longrightarrow>
            (map (entropy w) [0..<32] \<noteq> map (entropy w) [48..<80] \<or>
             map (entropy w) [32..<48] \<noteq> map (entropy w) [80..<96]) \<longrightarrow>
            (\<exists>rec1 rec2.
               MemoryStore_get (store w1) (field (reg_userId inp)) gemini = Some rec1 \<and>
               MemoryStore_get (store w2) (field (reg_userId inp)) gemini = Some rec2 \<and>
               encryptedKey rec1 \<noteq> encryptedKey rec2))"
proof -
  let ?comb = "\<lambda>cr p k e. drawn_salt e @ drawn_iv e @ snd (sealed cr p k e) @ fst (sealed cr p k e)"
  have two: "\<exists>b1 b2. r1 = Inr b1 \<and> r2 = Inr b2 \<and>
            take 32 (base64_decode b1) = map e [0..<32] \<and>
            take 16 (drop 32 (base64_decode b1)) = map e [32..<48] \<and>
            take 32 (base64_decode b2) = map e [48..<80] \<and>
            take 16 (drop 32 (base64_decode b2)) = map e [80..<96] \<and>
            (map e [0..<32] \<noteq> map e [48..<80] \<or> map e [32..<48] \<noteq> map e [80..<96]
               \<longrightarrow> b1 \<noteq> b2)"
    if p: "p \<noteq> []" and k: "length (key_buffer k) = 32"
      and c1: "encrypt cr p k e = (r1, e1)" and c2: "encrypt cr p k e1 = (r2, e2)"
    for p k e r1 e1 r2 e2
  proof -
    have r1: "r1 = Inr (base64_encode (?comb cr p k e))" and e1: "e1 = (\<lambda>i. e (48 + i))"
      using c1 unfolding encrypt_eq[OF p k] by simp_all
    have r2: "r2 = Inr (base64_encode (?comb cr p k e1))"
      using c2 unfolding encrypt_eq[OF p k] by simp
    have s1: "take 32 (base64_decode (base64_encode (?comb cr p k e))) = map e [0..<32]"
      and i1: "take 16 (drop 32 (base64_decode (base64_encode (?comb cr p k e)))) = map e [32..<48]"
      unfolding base64_decode_encode by (simp_all add: drawn_salt_def drawn_iv_def)
    have s2: "take 32 (base64_decode (base64_encode (?comb cr p k e1))) = map e [48..<80]"
      and i2: "take 16 (drop 32 (base64_decode (base64_encode (?comb cr p k e1)))) = map e [80..<96]"
      unfolding base64_decode_encode using next_draws[of e]
      by (simp_all add: e1)
    have "base64_encode (?comb cr p k e) \<noteq> base64_encode (?comb cr p k e1)"
      if "map e [0..<32] \<noteq> map e [48..<80] \<or> map e [32..<48] \<noteq> map e [80..<96]"
      using that s1 i1 s2 i2 by metis
    then show ?thesis using r1 r2 s1 i1 s2 i2 by blast
  qed
  have reg: "\<exists>rec1 rec2.
               MemoryStore_get (store w1) (field (reg_userId inp)) gemini = Some rec1 \<and>
               MemoryStore_get (store w2) (field (reg_userId inp)) gemini = Some rec2 \<and>
               encryptedKey rec1 \<noteq> encryptedKey rec2"
    if g1: "registerKey cr b inp w = (Inr (), w1)" and g2: "registerKey cr b inp w1 = (Inr (), w2)"
      and f: "map (entropy w) [0..<32] \<noteq> map (entropy w) [48..<80] \<or>
              map (entropy w) [32..<48] \<noteq> map (entropy w) [80..<96]"
    for b inp w w1 w2
  proof -
    let ?a = "field (reg_apiKey inp)" and ?k = "KeyBuffer (masterKey b)"
    note v = registerKey_success_inv[OF g1]
    have a: "?a \<noteq> []" using v gemini_key_regex_nonempty by blast
    have l: "length (key_buffer ?k) = 32" using v by simp
    obtain blob1 where b1: "fst (encrypt cr ?a ?k (entropy w)) = Inr blob1"
      and s1: "store w1 = (store w)(store_key (field (reg_userId inp)) gemini \<mapsto>
                  \<lparr>userId = field (reg_userId inp), provider = gemini,
                   encryptedKey = blob1, createdAt = clock w\<rparr>)"
      and e1: "entropy w1 = (\<lambda>i. entropy w (48 + i))"
      using registerKey_success_store[OF g1] by blast
    obtain blob2 where b2: "fst (encrypt cr ?a ?k (entropy w1)) = Inr blob2"
      and s2: "store w2 = (store w1)(store_key (field (reg_userId inp)) gemini \<mapsto>
                  \<lparr>userId = field (reg_userId inp), provider = gemini,
                   encryptedKey = blob2, createdAt = clock w1\<rparr>)"
      using registerKey_success_store[OF g2] by blast
    have c1: "encrypt cr ?a ?k (entropy w) = (Inr blob1, entropy w1)"
      using b1 unfolding encrypt_eq[OF a l] e1 by simp
    have c2: "encrypt cr ?a ?k (entropy w1) = (Inr blob2, snd (encrypt cr ?a ?k (entropy w1)))"
      using b2 by (simp add: prod_eq_iff)
    have "blob1 \<noteq> blob2" using two[OF a l c1 c2] f by blast
    then show ?thesis by (simp add: MemoryStore_get_def s1 s2)
  qed
  show ?thesis using two[OF assms] reg by blast
qed

lemma ramp_draws_differ: "map ramp_tape [0..<32] \<noteq> map ramp_tape [48..<80]"
proof
  assume "map ramp_tape [0..<32] = map ramp_tape [48..<80]"
  then have "map ramp_tape [0..<32] ! 0 = map ramp_tape [48..<80] ! 0" by simp
  then show False by (simp add: ramp_tape_def del: upt_rec_numeral)
qed

theorem fresh_draws_give_distinct_blobs_witness:
  "js ''AIzaSyAAAAAAAAAAAAAAAAAAAAAAAAAAA'' \<noteq> [] \<and> length (key_buffer zero_key) = 32 \<and>
   map ramp_tape [0..<32] \<noteq> map ramp_tape [48..<80] \<and>
   fst (encrypt model_crypto (js ''AIzaSyAAAAAAAAAAAAAAAAAAAAAAAAAAA'') zero_key ramp_tape) \<noteq>
   fst (encrypt model_crypto (js ''AIzaSyAAAAAAAAAAAAAAAAAAAAAAAAAAA'') zero_key
          (snd (encrypt model_crypto (js ''AIzaSyAAAAAAAAAAAAAAAAAAAAAAAAAAA'') zero_key
                  ramp_tape))) \<and>
   (\<exists>w1 w2 rec1 rec2.
      registerKey model_crypto zero_vault good_input ramp_world = (Inr (), w1) \<and>
      registerKey model_crypto zero_vault good_input w1 = (Inr (), w2) \<and>
      MemoryStore_get (store w1) (js ''u1'') gemini = Some rec1 \<and>
      MemoryStore_get (store w2) (js ''u1'') gemini = Some rec2 \<and>
      encryptedKey rec1 \<noteq> encryptedKey rec2)"
proof -
  let ?p = "js ''AIzaSyAAAAAAAAAAAAAAAAAAAAAAAAAAA''"
  let ?c1 = "encrypt model_crypto ?p zero_key ramp_tape"
  let ?c2 = "encrypt model_crypto ?p zero_key (snd ?c1)"
  have n: "?p \<noteq> []" by (simp add: js_def)
  have c1: "?c1 = (fst ?c1, snd ?c1)" and c2: "?c2 = (fst ?c2, snd ?c2)" by simp_all
  note t = fresh_draws_give_distinct_blobs[OF n zero_key_length c1 c2]
  have "fst ?c1 \<noteq> fst ?c2"
    using t[THEN conjunct1] ramp_draws_differ by auto
  moreover obtain w1 where g1: "registerKey model_crypto zero_vault good_input ramp_world = (Inr (), w1)"
    using registerKey_good_input by blast
  moreover obtain w2 where g2: "registerKey model_crypto zero_vault good_input w1 = (Inr (), w2)"
    using registerKey_good_input by blast
  moreover have f: "map (entropy ramp_world) [0..<32] \<noteq> map (entropy ramp_world) [48..<80] \<or>
             map (entropy ramp_world) [32..<48] \<noteq> map (entropy ramp_world) [80..<96]"
    using ramp_draws_differ by (simp add: ramp_world_def)
  moreover have "\<exists>rec1 rec2.
      MemoryStore_get (store w1) (js ''u1'') gemini = Some rec1 \<and>
      MemoryStore_get (store w2) (js ''u1'') gemini = Some rec2 \<and>
      encryptedKey rec1 \<noteq> encryptedKey rec2"
    using t[THEN conjunct2, rule_format, OF g1 g2 f] by (simp only: good_input_facts(5))
  ultimately show ?thesis using n zero_key_length ramp_draws_differ by blast
qed

section \<open>Shape of a Gemini key\<close>

lemma spec_key_characters_codes:
  "spec_key_characters = map of_nat ([65..<91] @ [97..<123] @ [48..<58] @ [45, 95])"
  by (simp add: spec_key_characters_def js_def upt_rec_numeral)

lemma unit_in_image:
  assumes "\<forall>x\<in>S. x < 65536"
  shows "(c :: 16 word) \<in> of_nat ` S \<longleftrightarrow> unat c \<in> S"
proof
  assume "c \<in> of_nat ` S"
  then obtain x where x: "x \<in> S" "c = of_nat x" by blast
  then have "unat c = x" using assms by (simp add: unat_of_nat)
  then show "unat c \<in> S" using x by simp
next
  assume "unat c \<in> S"
  then have "of_nat (unat c) \<in> (of_nat ` S :: 16 word set)" by (rule imageI)
  then show "c \<in> of_nat ` S" by simp
qed

lemma key_char_class_unat:
  "key_char_class c \<longleftrightarrow>
     (97 \<le> unat c \<and> unat c \<le> 122) \<or> (65 \<le> unat c \<and> unat c \<le> 90) \<or>
     (48 \<le> unat c \<and> unat c \<le> 57) \<or> unat c = 95 \<or> unat c = 45"
  by (simp add: key_char_class_def word_le_nat_alt word_unat_eq_iff)

lemma key_char_class_spec: "key_char_class c \<longleftrightarrow> c \<in> set spec_key_characters"
proof -
  let ?S = "set ([65..<91] @ [97..<123] @ [48..<58] @ [45, 95])"
  have b: "\<forall>x\<in>?S. x < 65536" by (auto simp del: upt_rec_numeral)
  have "c \<in> set spec_key_characters \<longleftrightarrow> c \<in> of_nat ` ?S"
    unfolding spec_key_characters_codes by (simp only: set_map)
  also have "\<dots> \<longleftrightarrow> unat c \<in> ?S" by (rule unit_in_image[OF b])
  also have "\<dots> \<longleftrightarrow> key_char_class c"
    unfolding key_char_class_unat by (auto simp del: upt_rec_numeral)
  finally show ?thesis by simp
qed

lemma gemini_key_regex_spec: "gemini_key_regex s \<longleftrightarrow> spec_key_shape s"
proof (cases s)
  case Nil
  then show ?thesis by (simp add: spec_key_shape_def js_def)
next
  case (Cons a t)
  show ?thesis
  proof (cases t)
    case Nil
    then show ?thesis using Cons by (simp add: spec_key_shape_def js_def)
  next
    case (Cons i rest)
    have c: "(\<lambda>c. c \<in> set spec_key_characters) = key_char_class"
      using key_char_class_spec by auto
    have d: "dropWhile key_char_class rest = [] \<longleftrightarrow> (\<forall>x\<in>set rest. key_char_class x)"
      by (simp add: dropWhile_eq_Nil_conv)
    show ?thesis
    proof (cases "\<forall>x\<in>set rest. key_char_class x")
      case True
      then have tw: "takeWhile key_char_class rest = rest" by simp
      show ?thesis
        unfolding \<open>s = a # t\<close> Cons spec_key_shape_def c
        using True by (auto simp add: tw d js_def list_all_iff)
    next
      case False
      then show ?thesis
        unfolding \<open>s = a # t\<close> Cons spec_key_shape_def c
        by (auto simp add: d js_def list_all_iff)
    qed
  qed
qed

text \<open>
  Claim C9. For a present \<open>userId\<close> and the provider \<open>gemini\<close>, \<open>registerKey\<close>
  accepts a non-empty \<open>apiKey\<close> if and only if it has the shape the specification
  words: the case-sensitive prefix \<open>AI\<close>, then at least 10 characters, each an ASCII
  letter, a digit, a hyphen or an underscore. Every other non-empty \<open>apiKey\<close> is rejected
  with the validation error of a malformed key.
\<close>

theorem api_key_accepted_iff_shape:
  assumes "length (masterKey b) = 32" "\<not> falsy (reg_userId inp)"
    and "reg_provider inp = Some gemini" "reg_apiKey inp = Some a" "a \<noteq> []"
  shows "((\<exists>w'. registerKey cr b inp w = (Inr (), w')) \<longleftrightarrow> spec_key_shape a) \<and>
         (\<not> spec_key_shape a \<longrightarrow> registerKey cr b inp w = (Inl InvalidApiKey, w))"
proof -
  have g: "gemini \<noteq> []" by (simp add: gemini_def js_def)
  have f: "\<not> falsy (reg_provider inp)" "\<not> falsy (reg_apiKey inp)"
      "field (reg_provider inp) = gemini" "field (reg_apiKey inp) = a"
    using assms(3,4,5) g by (simp_all add: falsy_def field_def)
  have acc: "\<exists>w'. registerKey cr b inp w = (Inr (), w')" if "spec_key_shape a"
    using registerKey_accepts[OF assms(1,2) f(1,2,3), of cr w] that
    by (auto simp add: f(4) gemini_key_regex_spec)
  have rej: "registerKey cr b inp w = (Inl InvalidApiKey, w)" if "\<not> spec_key_shape a"
  proof -
    have "\<not> gemini_key_regex (field (reg_apiKey inp))"
      using that by (simp add: f(4) gemini_key_regex_spec)
    then show ?thesis
      using registerKey_rejects[OF assms(1), of inp cr w] assms(2) f by simp
  qed
  show ?thesis
  proof (intro conjI iffI impI)
    assume s: "\<exists>w'. registerKey cr b inp w = (Inr (), w')"
    show "spec_key_shape a"
    proof (rule ccontr)
      assume "\<not> spec_key_shape a"
      then have "registerKey cr b inp w = (Inl InvalidApiKey, w)" by (rule rej)
      then show False using s by simp
    qed
  next
    assume "spec_key_shape a"
    then show "\<exists>w'. registerKey cr b inp w = (Inr (), w')" by (rule acc)
  next
    assume "\<not> spec_key_shape a"
    then show "registerKey cr b inp w = (Inl InvalidApiKey, w)" by (rule rej)
  qed
qed

theorem api_key_accepted_iff_shape_witness:
  "length (masterKey zero_vault) = 32 \<and> \<not> falsy (reg_userId good_input) \<and>
   reg_provider good_input = Some gemini \<and>
   reg_apiKey good_input = Some (js ''AIzaSyAAAAAAAAAAAAAAAAAAAAAAAAAAA'') \<and>
   js ''AIzaSyAAAAAAAAAAAAAAAAAAAAAAAAAAA'' \<noteq> [] \<and>
   spec_key_shape (js ''AIzaSyAAAAAAAAAAAAAAAAAAAAAAAAAAA'') \<and>
   (\<exists>w'. registerKey model_crypto zero_vault good_input empty_world = (Inr (), w')) \<and>
   reg_apiKey bad_input = Some (js ''bad'') \<and> js ''bad'' \<noteq> [] \<and>
   \<not> spec_key_shape (js ''bad'') \<and>
   registerKey model_crypto zero_vault bad_input empty_world = (Inl InvalidApiKey, empty_world)"
proof -
  have p: "reg_provider good_input = Some gemini"
      "reg_apiKey good_input = Some (js ''AIzaSyAAAAAAAAAAAAAAAAAAAAAAAAAAA'')"
      "reg_provider bad_input = Some gemini" "reg_apiKey bad_input = Some (js ''bad'')"
      "\<not> falsy (reg_userId bad_input)"
    by (simp_all add: good_input_def bad_input_def falsy_def js_def)
  have n: "js ''AIzaSyAAAAAAAAAAAAAAAAAAAAAAAAAAA'' \<noteq> []" "js ''bad'' \<noteq> []"
    by (simp_all add: js_def)
  have s: "spec_key_shape (js ''AIzaSyAAAAAAAAAAAAAAAAAAAAAAAAAAA'')"
    using good_key_matches by (simp only: gemini_key_regex_spec)
  have t: "\<not> spec_key_shape (js ''bad'')"
    by (simp add: spec_key_shape_def js_def)
  note good = api_key_accepted_iff_shape[OF zero_vault_length good_input_facts(1) p(1,2) n(1),
      of model_crypto empty_world]
  note bad = api_key_accepted_iff_shape[OF zero_vault_length p(5,3,4) n(2),
      of model_crypto empty_world]
  have 1: "\<exists>w'. registerKey model_crypto zero_vault good_input empty_world = (Inr (), w')"
    using good s by blast
  have 2: "registerKey model_crypto zero_vault bad_input empty_world =
             (Inl InvalidApiKey, empty_world)"
    using bad t by blast
  show ?thesis using zero_vault_length good_input_facts(1) p n s t 1 2 by blast
qed

section \<open>Chat without a stored key\<close>

lemma gemini_nonempty: "gemini \<noteq> []"
  by (simp add: gemini_def js_def)

lemma chat_no_record:
  assumes "or_default (chat_provider inp) gemini = gemini"
    and "MemoryStore_get (store w) uid gemini = None"
  shows "chat cr svc (Handle b uid) inp w = (Inl NoKeyFound, w)"
  using assms by simp

lemma deleteKey_removes:
  assumes "deleteKey b uid prov w = (Inr r, w')"
  shows "MemoryStore_get (store w') uid prov = None \<and> r = MemoryStore_has (store w) uid prov \<and>
         entropy w' = entropy w \<and> requests w' = requests w"
  using assms
  by (auto simp add: deleteKey_def MemoryStore_delete_def MemoryStore_get_def MemoryStore_has_def
      split: option.splits)

text \<open>
  Claim C6. \<open>use(userId)\<close> gives a handle, whose \<open>chat\<close> takes \<open>gemini\<close> for an
  omitted provider and fails for any other provider. Where the store has no record for
  the user and the provider, as is the case right after \<open>deleteKey\<close> for them, \<open>chat\<close>
  fails with the error that no key was found, which is not a decryption failure; the
  result is the same for every cipher and every provider service, and the world is left
  as it was, with no request sent.
\<close>

theorem chat_without_key_fails:
  assumes "length (masterKey b) = 32"
  shows "use b uid = Inr (Handle b uid) \<and>
         chat cr svc (Handle b uid) (inp\<lparr>chat_provider := None\<rparr>) w =
           chat cr svc (Handle b uid) (inp\<lparr>chat_provider := Some gemini\<rparr>) w \<and>
         (\<forall>p. p \<noteq> [] \<longrightarrow> p \<noteq> gemini \<longrightarrow>
            chat cr svc (Handle b uid) (inp\<lparr>chat_provider := Some p\<rparr>) w =
              (Inl UnsupportedProvider, w)) \<and>
         (chat_provider inp = None \<or> chat_provider inp = Some gemini \<longrightarrow>
          MemoryStore_get (store w) uid gemini = None \<longrightarrow>
            (\<forall>cr' svc'. chat cr' svc' (Handle b uid) inp w = (Inl NoKeyFound, w))) \<and>
         \<not> is_decryption_failure NoKeyFound \<and>
         (\<forall>r w'. chat_provider inp = None \<or> chat_provider inp = Some gemini \<longrightarrow>
            deleteKey b uid gemini w = (Inr r, w') \<longrightarrow>
              hasKey b uid gemini w' = Inr False \<and>
              (\<forall>cr' svc'. chat cr' svc' (Handle b uid) inp w' = (Inl NoKeyFound, w')))"
proof -
  have u: "use b uid = Inr (Handle b uid)" using assms by (simp add: use_def ensureValid_def)
  have d: "chat cr svc (Handle b uid) (inp\<lparr>chat_provider := None\<rparr>) w =
           chat cr svc (Handle b uid) (inp\<lparr>chat_provider := Some gemini\<rparr>) w"
    by (simp add: or_default_def gemini_nonempty cong: option.case_cong prod.case_cong sum.case_cong)
  have o: "chat cr svc (Handle b uid) (inp\<lparr>chat_provider := Some p\<rparr>) w =
              (Inl UnsupportedProvider, w)" if "p \<noteq> []" "p \<noteq> gemini" for p
    using that by (simp add: or_default_def)
  have n: "chat cr' svc' (Handle b uid) inp w0 = (Inl NoKeyFound, w0)"
    if "chat_provider inp = None \<or> chat_provider inp = Some gemini"
      "MemoryStore_get (store w0) uid gemini = None" for cr' svc' w0
  proof -
    have "or_default (chat_provider inp) gemini = gemini"
      using that(1) by (auto simp add: or_default_def gemini_nonempty)
    then show ?thesis using that(2) by (rule chat_no_record)
  qed
  have k: "\<not> is_decryption_failure NoKeyFound" by (simp add: is_decryption_failure_def)
  have x: "hasKey b uid gemini w' = Inr False \<and>
              (\<forall>cr' svc'. chat cr' svc' (Handle b uid) inp w' = (Inl NoKeyFound, w'))"
    if p: "chat_provider inp = None \<or> chat_provider inp = Some gemini"
      and dk: "deleteKey b uid gemini w = (Inr r, w')" for r w'
  proof -
    have g: "MemoryStore_get (store w') uid gemini = None"
      using deleteKey_removes[OF dk] by simp
    then have "MemoryStore_has (store w') uid gemini = False"
      by (simp add: MemoryStore_has_def MemoryStore_get_def)
    then have "hasKey b uid gemini w' = Inr False"
      using assms by (simp add: hasKey_def ensureValid_def)
    then show ?thesis using n[OF p g] by simp
  qed
  show ?thesis using u d o n k x by blast
qed

theorem chat_without_key_fails_witness:
  "length (masterKey zero_vault) = 32 \<and>
   js ''openai'' \<noteq> [] \<and> js ''openai'' \<noteq> gemini \<and>
   chat model_crypto echo_service (Handle zero_vault (js ''u1''))
     (hi_input\<lparr>chat_provider := Some (js ''openai'')\<rparr>) empty_world =
     (Inl UnsupportedProvider, empty_world) \<and>
   chat_provider hi_input = None \<and>
   MemoryStore_get (store empty_world) (js ''u1'') gemini = None \<and>
   chat model_crypto echo_service (Handle zero_vault (js ''u1'')) hi_input empty_world =
     (Inl NoKeyFound, empty_world) \<and>
   (\<exists>w1 w2. registerKey model_crypto zero_vault good_input empty_world = (Inr (), w1) \<and>
      hasKey zero_vault (js ''u1'') gemini w1 = Inr True \<and>
      deleteKey zero_vault (js ''u1'') gemini w1 = (Inr True, w2) \<and>
      hasKey zero_vault (js ''u1'') gemini w2 = Inr False \<and>
      chat model_crypto echo_service (Handle zero_vault (js ''u1'')) hi_input w2 = (Inl NoKeyFound, w2))"
proof -
  have o: "js ''openai'' \<noteq> []" "js ''openai'' \<noteq> gemini" by (simp_all add: js_def gemini_def)
  have p: "chat_provider hi_input = None" by (simp add: hi_input_def)
  have g: "MemoryStore_get (store empty_world) (js ''u1'') gemini = None"
    by (simp add: MemoryStore_get_def empty_world_def)
  note t = chat_without_key_fails[OF zero_vault_length, of "js ''u1''" model_crypto echo_service hi_input]
  have 1: "chat model_crypto echo_service (Handle zero_vault (js ''u1''))
     (hi_input\<lparr>chat_provider := Some (js ''openai'')\<rparr>) empty_world =
     (Inl UnsupportedProvider, empty_world)"
    using t[of empty_world] o by blast
  have 2: "chat model_crypto echo_service (Handle zero_vault (js ''u1'')) hi_input empty_world =
     (Inl NoKeyFound, empty_world)"
    using t[of empty_world] p g by blast
  obtain w1 where r: "registerKey model_crypto zero_vault good_input empty_world = (Inr (), w1)"
    using registerKey_good_input by blast
  obtain blob where s1: "store w1 = (store empty_world)(store_key (js ''u1'') gemini \<mapsto>
                  \<lparr>userId = js ''u1'', provider = gemini,
                   encryptedKey = blob, createdAt = clock empty_world\<rparr>)"
    using registerKey_success_store[OF r] unfolding good_input_facts(5) by blast
  have h1: "hasKey zero_vault (js ''u1'') gemini w1 = Inr True"
    by (simp add: hasKey_def ensureValid_def zero_vault_length MemoryStore_has_def s1)
  obtain w2 where dk: "deleteKey zero_vault (js ''u1'') gemini w1 = (Inr True, w2)"
    by (simp add: deleteKey_def ensureValid_def zero_vault_length MemoryStore_delete_def s1)
  have 3: "hasKey zero_vault (js ''u1'') gemini w2 = Inr False \<and>
      chat model_crypto echo_service (Handle zero_vault (js ''u1'')) hi_input w2 = (Inl NoKeyFound, w2)"
    using t[of w1] p dk by blast
  show ?thesis using zero_vault_length o 1 p g 2 r h1 dk 3 by blast
qed

section \<open>The model cipher on a sample\<close>









section \<open>Failures of \<open>decrypt\<close>\<close>










lemma altered_blob_one_character:
  "length altered_blob = length sample_blob"
  "take 86 altered_blob = take 86 sample_blob" "drop 87 altered_blob = drop 87 sample_blob"
  by (simp_all add: sample_blob_def altered_blob_def js_def)






section \<open>Forms of the master key\<close>

lemma base64_decode_Nil [simp]: "base64_decode [] = []"
  by (simp add: base64_decode_def)

lemma utf8_encode_Nil [simp]: "utf8_encode [] = []"
  by (simp add: utf8_encode_def)

lemma BYOK_new_accepts:
  assumes "length (normalizeMasterKey k) = 32"
  shows "BYOK_new (Some k) st = Inr (\<lparr>masterKey = normalizeMasterKey k\<rparr>, store_or_new st)"
proof -
  have "k \<noteq> KeyString []"
    using assms by (auto simp add: normalizeMasterKey_def)
  then show ?thesis using assms by (simp add: BYOK_new_def store_or_new_def)
qed




lemma normalize_base64:
  "length (base64_decode s) = 32 \<Longrightarrow> normalizeMasterKey (KeyString s) = base64_decode s"
  by (simp add: normalizeMasterKey_def)


text \<open>A key of \<open>generateMasterKey\<close> is accepted and stands for the 32 bytes drawn.\<close>

lemma generated_key_accepted:
  "BYOK_new (Some (KeyString (fst (generateMasterKey e)))) st =
     Inr (\<lparr>masterKey = map e [0..<32]\<rparr>, store_or_new st)"
proof -
  have g: "fst (generateMasterKey e) = base64_encode (map e [0..<32])"
    by (simp add: generateMasterKey_def randomBytes_def)
  have "length (base64_decode (base64_encode (map e [0..<32]))) = 32"
    by (simp add: base64_decode_encode)
  then show ?thesis
    using BYOK_new_accepts[of "KeyString (base64_encode (map e [0..<32]))" st]
    by (simp add: g normalize_base64 base64_decode_encode)
qed






end
